theory Spec2Isabelle
  imports Complex_Main "HOL-Library.Word" "HOL-Library.Sublist" "HOL-Library.Log_Nat"
begin

unbundle bit_operations_syntax

chapter \<open>The Go package memorable\_ids\<close>

text \<open>
  A model of dictionary.go and memorable\_ids.go: the word lists and their statistics,
  \<^verbatim>\<open>Generate\<close> and \<^verbatim>\<open>Parse\<close>, and the combinatorics (\<^verbatim>\<open>CalculateCombinations\<close>,
  \<^verbatim>\<open>CalculateCollisionProbability\<close>, \<^verbatim>\<open>GetCollisionAnalysis\<close>), followed by the
  properties the specification states of them. The functions of the Go library that the
  package calls (\<^verbatim>\<open>strings.Split\<close>, \<^verbatim>\<open>strings.Join\<close>, \<^verbatim>\<open>regexp.MatchString\<close> for the one
  pattern used, \<^verbatim>\<open>rand.Intn\<close>, \<^verbatim>\<open>fmt.Sprintf\<close> for the one format used) are modelled
  from their documentation; \<^verbatim>\<open>math.Exp\<close> is a parameter.
\<close>

section \<open>Machine integers and run-time failures\<close>

text \<open>
  Go's \<^verbatim>\<open>int\<close> is a 64-bit two's-complement integer on the platforms the library is
  built for: arithmetic wraps, comparisons are signed.
\<close>

type_synonym int64 = "64 word"

text \<open>
  A call can end with an \<^verbatim>\<open>error\<close> value (\<^verbatim>\<open>errors.New(msg)\<close>) or with a run-time panic
  (an index out of range, \<^verbatim>\<open>rand.Intn\<close> on a non-positive bound).
\<close>

datatype failure = ErrorValue string | RuntimePanic

text \<open>
  \<^verbatim>\<open>len(xs)\<close>. A slice or a string has at most \<open>2 ^ 63 - 1\<close> elements, so the length
  never wraps and is kept as a plain integer; \<open>word_of_int\<close> stores it in an \<^verbatim>\<open>int\<close>.
\<close>

definition len :: "'a list \<Rightarrow> int" where
  "len xs = int (length xs)"

text \<open>
  Indexing \<^verbatim>\<open>xs[i]\<close> and slicing \<^verbatim>\<open>xs[:j]\<close>: out of range is a panic, here \<open>None\<close>.
  A caller with an \<^verbatim>\<open>int\<close> passes its signed value.
\<close>

definition index :: "'a list \<Rightarrow> int \<Rightarrow> 'a option" where
  "index xs i = (if 0 \<le> i \<and> i < len xs then Some (xs ! nat i) else None)"

definition slice_to :: "'a list \<Rightarrow> int \<Rightarrow> 'a list option" where
  "slice_to xs j = (if 0 \<le> j \<and> j \<le> len xs then Some (take (nat j) xs) else None)"

text \<open>Counting up below a bound does not wrap.\<close>

lemma sint_succ_below:
  fixes i n :: int64
  assumes "i <s n"
  shows "sint (i + 1) = sint i + 1"
proof -
  have "sint n < 2 ^ 63" using sint_lt [of n] by simp
  moreover have "- (2 ^ 63) \<le> sint i" using sint_ge [of i] by simp
  moreover have "sint i < sint n" using assms by (simp add: word_sless_alt)
  ultimately have "- (2 ^ 63) \<le> sint i + 1" "sint i + 1 < 2 ^ 63" by linarith+
  then show ?thesis
    by (simp add: sint_word_ariths signed_take_bit_int_eq_self)
qed

section \<open>dictionary.go\<close>

definition Adjectives :: "string list" where
  "Adjectives =
    [''cute'', ''dapper'', ''large'', ''small'', ''long'', ''short'', ''thick'', ''narrow'',
     ''deep'', ''flat'', ''whole'', ''low'', ''high'', ''near'', ''far'', ''fast'', ''quick'',
     ''slow'', ''early'', ''late'', ''bright'', ''dark'', ''cloudy'', ''warm'', ''cool'',
     ''cold'', ''windy'', ''noisy'', ''loud'', ''quiet'', ''dry'', ''clear'', ''hard'',
     ''soft'', ''heavy'', ''light'', ''strong'', ''weak'', ''tidy'', ''clean'', ''dirty'',
     ''empty'', ''full'', ''close'', ''thirsty'', ''hungry'', ''fat'', ''old'', ''fresh'',
     ''dead'', ''healthy'', ''sweet'', ''sour'', ''bitter'', ''salty'', ''good'', ''bad'',
     ''great'', ''important'', ''useful'', ''expensive'', ''cheap'', ''free'', ''difficult'',
     ''able'', ''rich'', ''afraid'', ''brave'', ''fine'', ''sad'', ''proud'', ''comfortable'',
     ''happy'', ''clever'', ''interesting'', ''famous'', ''exciting'', ''funny'', ''kind'',
     ''polite'', ''fair'', ''busy'', ''lazy'', ''lucky'', ''careful'', ''safe'', ''dangerous'']"

definition Nouns :: "string list" where
  "Nouns =
    [''rabbit'', ''badger'', ''fox'', ''chicken'', ''bat'', ''deer'', ''snake'', ''hare'',
     ''hedgehog'', ''platypus'', ''mole'', ''mouse'', ''otter'', ''rat'', ''squirrel'',
     ''stoat'', ''weasel'', ''crow'', ''dove'', ''duck'', ''goose'', ''hawk'', ''heron'',
     ''kingfisher'', ''owl'', ''peacock'', ''pheasant'', ''pigeon'', ''robin'', ''rook'',
     ''sparrow'', ''starling'', ''swan'', ''ant'', ''bee'', ''butterfly'', ''dragonfly'',
     ''fly'', ''moth'', ''spider'', ''pike'', ''salmon'', ''trout'', ''frog'', ''newt'',
     ''toad'', ''crab'', ''lobster'', ''clam'', ''cockle'', ''mussel'', ''oyster'', ''snail'',
     ''cow'', ''dog'', ''donkey'', ''goat'', ''horse'', ''pig'', ''sheep'', ''ferret'',
     ''gerbil'', ''guinea-pig'', ''parrot'', ''book'', ''table'', ''chair'', ''lamp'',
     ''phone'', ''computer'', ''window'', ''door'']"

definition Verbs :: "string list" where
  "Verbs =
    [''sing'', ''play'', ''knit'', ''flounder'', ''dance'', ''listen'', ''run'', ''talk'',
     ''cuddle'', ''sit'', ''kiss'', ''hug'', ''whimper'', ''hide'', ''fight'', ''whisper'',
     ''cry'', ''snuggle'', ''walk'', ''drive'', ''loiter'', ''feel'', ''jump'', ''hop'',
     ''go'', ''marry'', ''engage'', ''sleep'', ''eat'', ''drink'', ''read'', ''write'',
     ''swim'', ''fly'', ''climb'', ''build'', ''create'', ''explore'', ''discover'', ''learn'']"

definition Adverbs :: "string list" where
  "Adverbs =
    [''jovially'', ''merrily'', ''cordially'', ''carefully'', ''correctly'', ''eagerly'',
     ''easily'', ''fast'', ''loudly'', ''patiently'', ''quickly'', ''quietly'', ''slowly'',
     ''gently'', ''firmly'', ''softly'', ''boldly'', ''bravely'', ''calmly'', ''clearly'',
     ''closely'', ''deeply'', ''directly'', ''exactly'', ''fairly'', ''freely'', ''fully'']"

definition Prepositions :: "string list" where
  "Prepositions =
    [''in'', ''on'', ''at'', ''by'', ''for'', ''with'', ''from'', ''to'', ''of'', ''about'',
     ''under'', ''over'', ''through'', ''between'', ''among'', ''during'', ''before'',
     ''after'', ''above'', ''below'', ''beside'', ''behind'', ''beyond'', ''within'',
     ''without'', ''across'']"

text \<open>\<^verbatim>\<open>DictionaryStats\<close> and \<^verbatim>\<open>GetDictionaryStats\<close>: the length of each list, as an \<^verbatim>\<open>int\<close>.\<close>

record DictionaryStats =
  stats_Adjectives :: int64
  stats_Nouns :: int64
  stats_Verbs :: int64
  stats_Adverbs :: int64
  stats_Prepositions :: int64

definition GetDictionaryStats :: DictionaryStats where
  "GetDictionaryStats =
     \<lparr> stats_Adjectives = word_of_int (len Adjectives),
       stats_Nouns = word_of_int (len Nouns),
       stats_Verbs = word_of_int (len Verbs),
       stats_Adverbs = word_of_int (len Adverbs),
       stats_Prepositions = word_of_int (len Prepositions) \<rparr>"

section \<open>memorable\_ids.go: generation and parsing\<close>

text \<open>
  The state a call can read and change: the global source of \<^verbatim>\<open>math/rand\<close>, as the
  stream of raw values it will deliver (position 0 is the next one), and whatever else a
  caller's suffix generator keeps (the record's extension).
\<close>

record world =
  rand_source :: "nat \<Rightarrow> nat"

text \<open>
  \<^verbatim>\<open>rand.Intn(n)\<close> panics for \<open>n \<le> 0\<close>; otherwise it returns a number from 0 to \<open>n - 1\<close>,
  here the next raw value modulo \<open>n\<close>, so that every outcome is the outcome of some source.
\<close>

definition rand_Intn :: "int \<Rightarrow> 'a world_scheme \<Rightarrow> (failure + int) \<times> 'a world_scheme" where
  "rand_Intn n w =
     (if n \<le> 0 then (Inl RuntimePanic, w)
      else (Inr (int (rand_source w 0 mod nat n)),
            w\<lparr>rand_source := \<lambda>k. rand_source w (Suc k)\<rparr>))"

text \<open>\<^verbatim>\<open>randomItem(items)\<close> is \<^verbatim>\<open>items[rand.Intn(len(items))]\<close>.\<close>

definition randomItem :: "string list \<Rightarrow> 'a world_scheme \<Rightarrow> (failure + string) \<times> 'a world_scheme" where
  "randomItem items w =
     (case rand_Intn (len items) w of
        (Inl e, w') \<Rightarrow> (Inl e, w')
      | (Inr k, w') \<Rightarrow>
          (case index items k of
             None \<Rightarrow> (Inl RuntimePanic, w')
           | Some x \<Rightarrow> (Inr x, w')))"

text \<open>
  \<^verbatim>\<open>GenerateOptions\<close>. A suffix generator is a function of no arguments that returns a
  pointer to a string or nil; it may read and change the state. The field is \<open>None\<close>
  for a nil function.
\<close>

record 'w GenerateOptions =
  opt_Components :: int64
  opt_Suffix :: "('w \<Rightarrow> string option \<times> 'w) option"
  opt_Separator :: string

text \<open>\<^verbatim>\<open>strings.Join(elems, sep)\<close>.\<close>

fun Join :: "string list \<Rightarrow> string \<Rightarrow> string" where
  "Join [] sep = []"
| "Join [x] sep = x"
| "Join (x # y # ys) sep = x @ sep @ Join (y # ys) sep"

text \<open>
  \<^verbatim>\<open>Generate\<close>: the five component generators in their fixed order, the loop
  \<^verbatim>\<open>for i := 0; i < options.Components; i++\<close> that appends the \<open>i\<close>-th generator's word,
  and the function itself, which returns the identifier or an error, and the state it
  leaves.
\<close>

definition componentGenerators ::
  "('a world_scheme \<Rightarrow> (failure + string) \<times> 'a world_scheme) list" where
  "componentGenerators =
     [randomItem Adjectives, randomItem Nouns, randomItem Verbs,
      randomItem Adverbs, randomItem Prepositions]"

function Generate_loop ::
  "int64 \<Rightarrow> int64 \<Rightarrow> string list \<Rightarrow> 'a world_scheme \<Rightarrow> (failure + string list) \<times> 'a world_scheme" where
  "Generate_loop components i parts w =
     (if i <s components then
        (case index componentGenerators (sint i) of
           None \<Rightarrow> (Inl RuntimePanic, w)
         | Some g \<Rightarrow>
             (case g w of
                (Inl e, w') \<Rightarrow> (Inl e, w')
              | (Inr word, w') \<Rightarrow> Generate_loop components (i + 1) (parts @ [word]) w'))
      else (Inr parts, w))"
  by pat_completeness auto
termination
  by (relation "measure (\<lambda>(n, i, parts, w). nat (sint n - sint i))")
     (auto simp: sint_succ_below word_sless_alt)

declare Generate_loop.simps [simp del]

definition Generate ::
  "'a world_scheme GenerateOptions \<Rightarrow> 'a world_scheme \<Rightarrow> (failure + string) \<times> 'a world_scheme" where
  "Generate options w =
     (let options = (if opt_Components options = 0 then options\<lparr>opt_Components := 2\<rparr> else options);
          options = (if opt_Separator options = [] then options\<lparr>opt_Separator := ''-''\<rparr> else options)
      in if opt_Components options <s 1 \<or> 5 <s opt_Components options
         then (Inl (ErrorValue ''components must be between 1 and 5''), w)
         else
           (case Generate_loop (opt_Components options) 0 [] w of
              (Inl e, w') \<Rightarrow> (Inl e, w')
            | (Inr parts, w') \<Rightarrow>
                (case opt_Suffix options of
                   None \<Rightarrow> (Inr (Join parts (opt_Separator options)), w')
                 | Some suffixGenerator \<Rightarrow>
                     (case suffixGenerator w' of
                        (None, w'') \<Rightarrow> (Inr (Join parts (opt_Separator options)), w'')
                      | (Some suffixValue, w'') \<Rightarrow>
                          (Inr (Join (parts @ [suffixValue]) (opt_Separator options)), w'')))))"

text \<open>
  \<^verbatim>\<open>strings.Split(s, sep)\<close> for a separator that is not empty: the parts of \<open>s\<close> between
  the occurrences of \<open>sep\<close>, found from the left and not overlapping; \<open>cur\<close> holds the
  part being read. For the empty separator Go splits after each UTF-8 sequence, here after
  each byte; \<^verbatim>\<open>Parse\<close> never passes it.
\<close>

fun Split_from :: "char \<Rightarrow> string \<Rightarrow> string \<Rightarrow> string \<Rightarrow> string list" where
  "Split_from s0 ss cur [] = [cur]"
| "Split_from s0 ss cur (c # cs) =
     (if prefix (s0 # ss) (c # cs)
      then cur # Split_from s0 ss [] (drop (length ss) cs)
      else Split_from s0 ss (cur @ [c]) cs)"

definition Split :: "string \<Rightarrow> string \<Rightarrow> string list" where
  "Split s sep =
     (case sep of
        [] \<Rightarrow> map (\<lambda>c. [c]) s
      | s0 # ss \<Rightarrow> Split_from s0 ss [] s)"

text \<open>
  \<^verbatim>\<open>regexp.MatchString(`^\d+$`, s)\<close>: in Go's syntax \<^verbatim>\<open>\d\<close> is an ASCII digit, and \<^verbatim>\<open>^\<close>
  and \<^verbatim>\<open>$\<close> are the start and the end of the text. The pattern compiles, so the error
  that \<^verbatim>\<open>Parse\<close> ignores is always nil.
\<close>

definition is_digit :: "char \<Rightarrow> bool" where
  "is_digit c = (c \<in> set ''0123456789'')"

fun MatchString_digits :: "string \<Rightarrow> bool" where
  "MatchString_digits [] = False"
| "MatchString_digits [c] = is_digit c"
| "MatchString_digits (c # cs) = (is_digit c \<and> MatchString_digits cs)"

text \<open>\<^verbatim>\<open>ParsedID\<close> and \<^verbatim>\<open>Parse\<close>; a nil suffix is \<open>None\<close>.\<close>

record ParsedID =
  id_Components :: "string list"
  id_Suffix :: "string option"

definition Parse :: "string \<Rightarrow> string \<Rightarrow> failure + ParsedID" where
  "Parse id' separator =
     (let separator = (if separator = [] then ''-'' else separator);
          parts = Split id' separator;
          result = \<lparr> id_Components = [], id_Suffix = None \<rparr>
      in if len parts > 0 then
           (case index parts (len parts - 1) of
              None \<Rightarrow> Inl RuntimePanic
            | Some lastPart \<Rightarrow>
                if MatchString_digits lastPart
                then (case slice_to parts (len parts - 1) of
                        None \<Rightarrow> Inl RuntimePanic
                      | Some front \<Rightarrow>
                          Inr (result\<lparr> id_Suffix := Some lastPart, id_Components := front \<rparr>))
                else Inr (result\<lparr> id_Components := parts \<rparr>))
         else Inr result)"

section \<open>float64\<close>

text \<open>
  A finite \<^verbatim>\<open>float64\<close> is the real number it denotes. Conversions and arithmetic round
  to the nearest number with a 53-bit significand, ties to the even one (IEEE 754
  binary64). The exponent is not bounded here: the conversions, products, quotients and
  differences below stay far inside the normal range, so overflow and subnormal numbers
  do not arise from them; infinities and NaN are not represented.
\<close>

type_synonym float64 = real

definition round_half_even :: "real \<Rightarrow> int" where
  "round_half_even x =
     (let f = \<lfloor>x\<rfloor>
      in if x - of_int f < 1 / 2 then f
         else if 1 / 2 < x - of_int f then f + 1
         else if even f then f else f + 1)"

text \<open>The exponent \<open>e\<close> of a number other than 0: \<open>2 ^ e \<le> \<bar>x\<bar> < 2 ^ (e + 1)\<close>.\<close>

definition binade :: "real \<Rightarrow> int" where
  "binade x =
     (if 1 \<le> \<bar>x\<bar> then int (floorlog 2 (nat \<lfloor>\<bar>x\<bar>\<rfloor>)) - 1
      else - int (floorlog 2 (nat \<lceil>1 / \<bar>x\<bar>\<rceil> - 1)))"

definition round_float64 :: "real \<Rightarrow> real" where
  "round_float64 x =
     (if x = 0 then 0
      else of_int (round_half_even (x * 2 powi (52 - binade x))) * 2 powi (binade x - 52))"

text \<open>
  \<^verbatim>\<open>float64(i)\<close>, \<^verbatim>\<open>int(x)\<close> (truncation towards zero; the values converted below lie
  within the range of \<^verbatim>\<open>int\<close>), the arithmetic of \<^verbatim>\<open>float64\<close>, and the constant
  \<^verbatim>\<open>0.8\<close> as a \<^verbatim>\<open>float64\<close>. Negation is exact.
\<close>

definition float64_of_int :: "int64 \<Rightarrow> float64" where
  "float64_of_int i = round_float64 (of_int (sint i))"

definition int_of_float64 :: "float64 \<Rightarrow> int64" where
  "int_of_float64 x = word_of_int (if 0 \<le> x then \<lfloor>x\<rfloor> else \<lceil>x\<rceil>)"

definition f64_mul :: "float64 \<Rightarrow> float64 \<Rightarrow> float64" where
  "f64_mul a b = round_float64 (a * b)"

definition f64_div :: "float64 \<Rightarrow> float64 \<Rightarrow> float64" where
  "f64_div a b = round_float64 (a / b)"

definition f64_sub :: "float64 \<Rightarrow> float64 \<Rightarrow> float64" where
  "f64_sub a b = round_float64 (a - b)"

definition float64_0_8 :: float64 where
  "float64_0_8 = round_float64 (4 / 5)"

text \<open>
  \<^verbatim>\<open>fmt.Sprintf("%.2f%%", x)\<close>: the sign, the decimal digits of the exact value of \<open>x\<close>
  rounded to two places (ties to even), and a percent sign.
\<close>

definition digit :: "nat \<Rightarrow> char" where
  "digit d = ''0123456789'' ! d"

function decimal :: "nat \<Rightarrow> string" where
  "decimal n = (if n < 10 then [digit n] else decimal (n div 10) @ [digit (n mod 10)])"
  by pat_completeness auto
termination
  by (relation "measure (\<lambda>n. n)") auto

declare decimal.simps [simp del]

definition Sprintf_2f_percent :: "float64 \<Rightarrow> string" where
  "Sprintf_2f_percent x =
     (let n = nat (round_half_even (\<bar>x\<bar> * 100))
      in (if x < 0 then ''-'' else []) @ decimal (n div 100) @ ''.'' @
         [digit (n mod 100 div 10), digit (n mod 10)] @ ''%'')"

section \<open>memorable\_ids.go: the combinatorics\<close>

text \<open>
  The loop \<^verbatim>\<open>for i := 0; i < components; i++ { total *= componentSizes[i] }\<close>.
\<close>

function CalculateCombinations_loop :: "int64 list \<Rightarrow> int64 \<Rightarrow> int64 \<Rightarrow> int64 \<Rightarrow> failure + int64" where
  "CalculateCombinations_loop componentSizes components i total' =
     (if i <s components then
        (case index componentSizes (sint i) of
           None \<Rightarrow> Inl RuntimePanic
         | Some sz \<Rightarrow> CalculateCombinations_loop componentSizes components (i + 1) (total' * sz))
      else Inr total')"
  by pat_completeness auto

termination CalculateCombinations_loop
  by (relation "measure (\<lambda>(sizes, n, i, t). nat (sint n - sint i))")
     (auto simp: sint_succ_below word_sless_alt)

declare CalculateCombinations_loop.simps [simp del]

text \<open>\<^verbatim>\<open>CalculateCombinations\<close>; the products are products of \<^verbatim>\<open>int\<close>s and wrap.\<close>

definition CalculateCombinations :: "int64 \<Rightarrow> int64 \<Rightarrow> failure + int64" where
  "CalculateCombinations components suffixRange =
     (if components <s 1 \<or> 5 <s components then Inr 0
      else
        let suffixRange = (if suffixRange <s 1 then 1 else suffixRange);
            stats = GetDictionaryStats;
            componentSizes =
              [stats_Adjectives stats, stats_Nouns stats, stats_Verbs stats,
               stats_Adverbs stats, stats_Prepositions stats]
        in case CalculateCombinations_loop componentSizes components 0 1 of
             Inl e \<Rightarrow> Inl e
           | Inr total' \<Rightarrow> Inr (total' * suffixRange))"

text \<open>
  \<^verbatim>\<open>math.Exp\<close> belongs to the Go library, which fixes its values only up to a small
  error: its restriction to finite values is the parameter \<open>math_Exp\<close> of the model.
  \<^verbatim>\<open>generatedIDs*generatedIDs\<close> is a product of two \<^verbatim>\<open>int\<close>s, converted afterwards. The
  divisor is positive wherever the quotient is reached.
\<close>

definition CalculateCollisionProbability :: "(float64 \<Rightarrow> float64) \<Rightarrow> int64 \<Rightarrow> int64 \<Rightarrow> float64" where
  "CalculateCollisionProbability math_Exp totalCombinations generatedIDs =
     (if totalCombinations \<le>s generatedIDs then 1
      else if generatedIDs \<le>s 1 then 0
      else
        let exponent =
              f64_div (- float64_of_int (generatedIDs * generatedIDs))
                      (f64_mul 2 (float64_of_int totalCombinations))
        in f64_sub 1 (math_Exp exponent))"

text \<open>\<^verbatim>\<open>CollisionScenario\<close>, \<^verbatim>\<open>CollisionAnalysis\<close> and \<^verbatim>\<open>GetCollisionAnalysis\<close>.\<close>

record CollisionScenario =
  IDs :: int64
  Probability :: float64
  Percentage :: string

record CollisionAnalysis =
  TotalCombinations :: int64
  Scenarios :: "CollisionScenario list"

text \<open>The loop \<^verbatim>\<open>for _, size := range testSizes\<close>.\<close>

fun GetCollisionAnalysis_loop ::
  "(float64 \<Rightarrow> float64) \<Rightarrow> int64 \<Rightarrow> int64 \<Rightarrow> int64 list \<Rightarrow> CollisionScenario list \<Rightarrow>
   CollisionScenario list" where
  "GetCollisionAnalysis_loop math_Exp total' threshold [] scenarios = scenarios"
| "GetCollisionAnalysis_loop math_Exp total' threshold (size' # testSizes) scenarios =
     (if size' <s threshold then
        (let probability = CalculateCollisionProbability math_Exp total' size'
         in GetCollisionAnalysis_loop math_Exp total' threshold testSizes
              (scenarios @
               [\<lparr> IDs = size',
                  Probability = probability,
                  Percentage = Sprintf_2f_percent (f64_mul probability 100) \<rparr>]))
      else GetCollisionAnalysis_loop math_Exp total' threshold testSizes scenarios)"

definition GetCollisionAnalysis ::
  "(float64 \<Rightarrow> float64) \<Rightarrow> int64 \<Rightarrow> int64 \<Rightarrow> failure + CollisionAnalysis" where
  "GetCollisionAnalysis math_Exp components suffixRange =
     (let suffixRange = (if suffixRange <s 1 then 1 else suffixRange)
      in case CalculateCombinations components suffixRange of
           Inl e \<Rightarrow> Inl e
         | Inr total' \<Rightarrow>
             let testSizes = [50, 100, 200, 500, 1000, 2000, 5000, 10000, 20000, 50000];
                 threshold = int_of_float64 (f64_mul (float64_of_int total') float64_0_8)
             in Inr \<lparr> TotalCombinations = total',
                      Scenarios = GetCollisionAnalysis_loop math_Exp total' threshold testSizes [] \<rparr>)"

section \<open>Notions of the specification\<close>

text \<open>
  The lengths of the five dictionaries in their fixed order, and the dictionaries
  themselves, as the specification speaks of them.
\<close>

definition spec_dictionary_lengths :: "nat list" where
  "spec_dictionary_lengths =
     [length Adjectives, length Nouns, length Verbs, length Adverbs, length Prepositions]"

definition dictionaries :: "string list list" where
  "dictionaries = [Adjectives, Nouns, Verbs, Adverbs, Prepositions]"

text \<open>
  The outcome of the random draws: the \<open>i\<close>-th component is the word the \<open>i\<close>-th raw
  value of the source selects in the \<open>i\<close>-th dictionary, and \<open>n\<close> draws consume \<open>n\<close>
  raw values.
\<close>

definition drawn_words :: "nat \<Rightarrow> 'a world_scheme \<Rightarrow> string list" where
  "drawn_words n w =
     map (\<lambda>i. (dictionaries ! i) ! (rand_source w i mod length (dictionaries ! i))) [0..<n]"

definition consume :: "nat \<Rightarrow> 'a world_scheme \<Rightarrow> 'a world_scheme" where
  "consume n w = w\<lparr>rand_source := \<lambda>k. rand_source w (k + n)\<rparr>"

text \<open>
  The formula of the specification for the collision probability,
  \<open>1 - exp(- g\<^sup>2 / (2 * T))\<close> evaluated in \<^verbatim>\<open>float64\<close>: the square is the square of the
  number \<open>g\<close>, rounded.
\<close>

definition spec_CollisionProbability :: "(float64 \<Rightarrow> float64) \<Rightarrow> int64 \<Rightarrow> int64 \<Rightarrow> float64" where
  "spec_CollisionProbability math_Exp T g =
     (if T \<le>s g then 1
      else if g \<le>s 1 then 0
      else f64_sub 1
             (math_Exp
                (f64_div (- round_float64 ((real_of_int (sint g))\<^sup>2))
                         (f64_mul 2 (float64_of_int T)))))"

text \<open>The scenario \<^verbatim>\<open>GetCollisionAnalysis\<close> builds for a candidate count.\<close>

definition scenario_of :: "(float64 \<Rightarrow> float64) \<Rightarrow> int64 \<Rightarrow> int64 \<Rightarrow> CollisionScenario" where
  "scenario_of math_Exp total' size' =
     \<lparr> IDs = size',
       Probability = CalculateCollisionProbability math_Exp total' size',
       Percentage =
         Sprintf_2f_percent (f64_mul (CalculateCollisionProbability math_Exp total' size') 100) \<rparr>"

text \<open>The threshold \<^verbatim>\<open>int(float64(total) * 0.8)\<close> of \<^verbatim>\<open>GetCollisionAnalysis\<close>.\<close>

definition threshold_of :: "int64 \<Rightarrow> int64" where
  "threshold_of total' = int_of_float64 (f64_mul (float64_of_int total') float64_0_8)"

text \<open>
  \<^verbatim>\<open>strings.Contains(s, substr)\<close>: \<open>substr\<close> occurs in \<open>s\<close>. The identifiers of \<^verbatim>\<open>Generate\<close>
  are joined without escaping, so whether splitting gives the joined parts back depends
  on where the separator occurs: a list of parts splits back when the separator occurs
  neither in its last part nor in any other part followed by the separator without its
  last character (an occurrence that starts inside a part).
\<close>

fun Contains :: "string \<Rightarrow> string \<Rightarrow> bool" where
  "Contains [] substr = (substr = [])"
| "Contains (c # cs) substr = (prefix substr (c # cs) \<or> Contains cs substr)"

definition splits_back :: "string list \<Rightarrow> string \<Rightarrow> bool" where
  "splits_back parts sep =
     ((\<forall>p \<in> set (butlast parts). \<not> Contains (p @ butlast sep) sep) \<and>
      \<not> Contains (last parts) sep)"

text \<open>A caller's state that counts the calls of its suffix generator.\<close>

record counting_world = world +
  suffix_calls :: nat

section \<open>The dictionary sizes\<close>

lemma length_Adjectives: "length Adjectives = 87"
  by (simp add: Adjectives_def)

lemma length_Nouns: "length Nouns = 72"
  by (simp add: Nouns_def)

lemma length_Verbs: "length Verbs = 40"
  by (simp add: Verbs_def)

lemma length_Adverbs: "length Adverbs = 27"
  by (simp add: Adverbs_def)

lemma length_Prepositions: "length Prepositions = 26"
  by (simp add: Prepositions_def)

section \<open>CalculateCombinations\<close>

lemma CalculateCombinations_loop_eq:
  "0 \<le> sint i \<Longrightarrow> sint i \<le> sint n \<Longrightarrow> sint n \<le> int (length sizes) \<Longrightarrow>
   CalculateCombinations_loop sizes n i t =
     Inr (t * prod_list (take (nat (sint n) - nat (sint i)) (drop (nat (sint i)) sizes)))"
proof (induction sizes n i t rule: CalculateCombinations_loop.induct)
  case (1 sizes n i t)
  show ?case
  proof (cases "i <s n")
    case False
    then have "sint i = sint n" using 1(3) by (simp add: word_sless_alt)
    then show ?thesis using False by (simp add: CalculateCombinations_loop.simps)
  next
    case True
    then have lt: "sint i < sint n" by (simp add: word_sless_alt)
    have s: "sint (i + 1) = sint i + 1" by (rule sint_succ_below [OF True])
    have inr: "sint i < int (length sizes)" using lt 1(4) by simp
    have idx: "index sizes (sint i) = Some (sizes ! nat (sint i))"
      using 1(2) inr by (simp add: index_def len_def)
    have ih: "CalculateCombinations_loop sizes n (i + 1) (t * (sizes ! nat (sint i))) =
        Inr (t * (sizes ! nat (sint i)) * prod_list (take (nat (sint n) - nat (sint (i + 1))) (drop (nat (sint (i + 1))) sizes)))"
      using 1(1) [OF True idx] 1(2) lt 1(4) s by simp
    have n1: "nat (sint n) - nat (sint i) = Suc (nat (sint n) - nat (sint i + 1))"
      using lt 1(2) by simp
    have d: "drop (nat (sint i)) sizes = sizes ! nat (sint i) # drop (nat (sint i + 1)) sizes"
      using inr 1(2) by (simp add: Cons_nth_drop_Suc nat_add_distrib)
    show ?thesis
      by (subst CalculateCombinations_loop.simps) (use True idx ih s n1 d in \<open>simp add: mult.assoc\<close>)
  qed
qed


lemma components_in_range:
  fixes c :: int64
  assumes "\<not> (c <s 1 \<or> 5 <s c)"
  shows "1 \<le> sint c \<and> sint c \<le> 5"
  using assms by (simp add: word_sless_alt not_less)

lemma CalculateCombinations_closed_form:
  fixes components suffixRange :: int64
  assumes "\<not> (components <s 1 \<or> 5 <s components)"
  shows "CalculateCombinations components suffixRange =
     Inr (word_of_int (int (prod_list (take (nat (sint components)) spec_dictionary_lengths)) *
                       sint (if suffixRange <s 1 then 1 else suffixRange)))"
proof -
  let ?sizes = "[word_of_int (len Adjectives), word_of_int (len Nouns), word_of_int (len Verbs),
      word_of_int (len Adverbs), word_of_int (len Prepositions) :: int64]"
  have r: "1 \<le> sint components" "sint components \<le> 5"
    using components_in_range [OF assms] by simp_all
  have loop: "CalculateCombinations_loop ?sizes components 0 1 =
      Inr (prod_list (take (nat (sint components)) ?sizes))"
    using CalculateCombinations_loop_eq [of 0 components ?sizes 1] r by simp
  have sizes: "?sizes = map word_of_nat spec_dictionary_lengths"
    by (simp add: len_def spec_dictionary_lengths_def)
  have prod: "prod_list (map word_of_nat xs) = (word_of_nat (prod_list xs) :: int64)" for xs
    by (induction xs) simp_all
  have "prod_list (take (nat (sint components)) ?sizes) =
      (word_of_nat (prod_list (take (nat (sint components)) spec_dictionary_lengths)) :: int64)"
    unfolding sizes by (simp add: take_map prod)
  with loop have "CalculateCombinations_loop ?sizes components 0 1 =
      Inr (word_of_nat (prod_list (take (nat (sint components)) spec_dictionary_lengths)))"
    by simp
  then show ?thesis
    using assms
    by (simp add: CalculateCombinations_def GetDictionaryStats_def Let_def del: One_nat_def)
qed


lemmas dict_lengths = spec_dictionary_lengths_def length_Adjectives length_Nouns length_Verbs
  length_Adverbs length_Prepositions

lemma uint_word_of_int_mod: "uint (word_of_int k :: int64) = k mod 2 ^ 64"
  by (simp add: uint_word_of_int_eq take_bit_eq_mod)

lemma valid_1: "\<not> ((1::int64) <s 1 \<or> 5 <s (1::int64))"
  by (simp add: word_sless_alt)

lemma valid_2: "\<not> ((2::int64) <s 1 \<or> 5 <s (2::int64))"
  by (simp add: word_sless_alt)

text \<open>
  Claim C3. The claim gives the lists the lengths 78, 68, 40, 27 and 26, as the comments
  of dictionary.go do. The lists themselves hold 87 adjectives and 72 nouns (40 verbs,
  27 adverbs and 26 prepositions, as claimed), and \<^verbatim>\<open>GetDictionaryStats\<close> reports the
  lengths of the lists as they are.
\<close>

theorem dictionary_lengths_in_code:
  "length Adjectives = 87 \<and> length Nouns = 72 \<and> length Verbs = 40 \<and>
   length Adverbs = 27 \<and> length Prepositions = 26 \<and>
   GetDictionaryStats =
     \<lparr> stats_Adjectives = 87, stats_Nouns = 72, stats_Verbs = 40,
       stats_Adverbs = 27, stats_Prepositions = 26 \<rparr>"
  by (simp add: GetDictionaryStats_def len_def length_Adjectives length_Nouns length_Verbs
      length_Adverbs length_Prepositions)

text \<open>
  Claim C8, amended. \<^verbatim>\<open>CalculateCombinations\<close> returns 0 when \<open>components\<close> is outside
  1..5. Otherwise, with \<open>suffixRange\<close> below 1 replaced by 1, it returns the product of the
  lengths of the first \<open>components\<close> dictionaries (Adjectives, Nouns, Verbs, Adverbs,
  Prepositions) and the range, reduced to a signed 64-bit integer: the product itself
  whenever that is below \<open>2 ^ 63\<close>. In particular \<^verbatim>\<open>CalculateCombinations(2, 1)\<close> is
  \<open>len(Adjectives) * len(Nouns)\<close> and \<^verbatim>\<open>CalculateCombinations(1, 1000000)\<close> is
  \<open>len(Adjectives) * 1000000\<close>.
\<close>

theorem CalculateCombinations_product_mod:
  fixes components suffixRange :: int64
  shows
  "(components <s 1 \<or> 5 <s components \<longrightarrow>
      CalculateCombinations components suffixRange = Inr 0) \<and>
   (\<not> (components <s 1 \<or> 5 <s components) \<longrightarrow>
      (\<exists>r. CalculateCombinations components suffixRange = Inr r \<and>
         sint r =
           signed_take_bit 63
             (int (prod_list (take (nat (sint components)) spec_dictionary_lengths)) *
              sint (if suffixRange <s 1 then 1 else suffixRange)) \<and>
         (int (prod_list (take (nat (sint components)) spec_dictionary_lengths)) *
            sint (if suffixRange <s 1 then 1 else suffixRange) < 2 ^ 63 \<longrightarrow>
          sint r =
            int (prod_list (take (nat (sint components)) spec_dictionary_lengths)) *
            sint (if suffixRange <s 1 then 1 else suffixRange)))) \<and>
   CalculateCombinations 2 1 = Inr (word_of_nat (length Adjectives * length Nouns)) \<and>
   CalculateCombinations 1 1000000 = Inr (word_of_nat (length Adjectives * 1000000))"
proof (intro conjI impI)
  assume "components <s 1 \<or> 5 <s components"
  then show "CalculateCombinations components suffixRange = Inr 0"
    by (auto simp: CalculateCombinations_def)
next
  let ?c = "if suffixRange <s 1 then 1 else suffixRange"
  let ?p = "int (prod_list (take (nat (sint components)) spec_dictionary_lengths)) * sint ?c"
  assume v: "\<not> (components <s 1 \<or> 5 <s components)"
  have pos: "0 \<le> ?p"
    by (auto simp: word_sless_alt not_less)
  have eq: "CalculateCombinations components suffixRange = Inr (word_of_int ?p)"
    by (rule CalculateCombinations_closed_form [OF v])
  have w: "sint (word_of_int ?p :: int64) = signed_take_bit 63 ?p"
    by (simp only: sint_sbintrunc') simp
  have small: "?p < 2 ^ 63 \<longrightarrow> signed_take_bit 63 ?p = ?p"
  proof
    assume "?p < 2 ^ 63"
    moreover have "- (2 ^ 63) \<le> (0::int)" by simp
    then have "- (2 ^ 63) \<le> ?p" using pos by (rule order_trans)
    ultimately show "signed_take_bit 63 ?p = ?p"
      by (simp only: signed_take_bit_int_eq_self)
  qed
  show "\<exists>r. CalculateCombinations components suffixRange = Inr r \<and>
         sint r = signed_take_bit 63 ?p \<and> (?p < 2 ^ 63 \<longrightarrow> sint r = ?p)"
    using eq w small by auto
next
  have s: "\<not> ((1 :: int64) <s 1)" by (simp add: word_sless_alt)
  show "CalculateCombinations 2 1 = Inr (word_of_nat (length Adjectives * length Nouns))"
    using CalculateCombinations_closed_form [OF valid_2, of 1] s
    by (simp add: spec_dictionary_lengths_def length_Adjectives length_Nouns)
next
  have s: "\<not> ((1000000 :: int64) <s 1)" by (simp add: word_sless_alt)
  show "CalculateCombinations 1 1000000 = Inr (word_of_nat (length Adjectives * 1000000))"
    using CalculateCombinations_closed_form [OF valid_1, of 1000000] s
    by (simp add: spec_dictionary_lengths_def length_Adjectives)
qed

theorem CalculateCombinations_product_mod_witness:
  "CalculateCombinations 7 1000 = Inr 0 \<and>
   (\<exists>r. CalculateCombinations 3 1000 = Inr r \<and> sint r = 250560000)"
  using CalculateCombinations_product_mod [of 7 1000]
    CalculateCombinations_product_mod [of 3 1000]
  by (simp add: word_sless_alt dict_lengths)

text \<open>
  The claim as stated, without the reduction, fails for one component and a range of
  \<open>2 ^ 62\<close>: the product is 401216683603182747648, the value returned is \<open>- (2 ^ 62)\<close>.
\<close>

theorem CalculateCombinations_product_counterexample:
  "CalculateCombinations 1 (2 ^ 62) = Inr (- (2 ^ 62)) \<and>
   sint (- (2 ^ 62) :: int64) = - 4611686018427387904 \<and>
   int (prod_list (take 1 spec_dictionary_lengths)) * sint (2 ^ 62 :: int64) =
     401216683603182747648"
proof -
  have s: "\<not> ((2 ^ 62 :: int64) <s 1)" by (simp add: word_sless_alt)
  have "CalculateCombinations 1 (2 ^ 62) = Inr (- (2 ^ 62))"
    using CalculateCombinations_closed_form [OF valid_1, of "2 ^ 62"] s
    by (simp add: spec_dictionary_lengths_def length_Adjectives)
  then show ?thesis
    by (simp add: spec_dictionary_lengths_def length_Adjectives)
qed

text \<open>
  Claim C10. The multiplications of \<^verbatim>\<open>CalculateCombinations\<close> are unchecked 64-bit
  multiplications: for valid \<open>components\<close> the result is the product modulo \<open>2 ^ 64\<close>, and
  for one component with the range \<open>2 ^ 62\<close> (a range that is at least 1) the returned
  total is negative, not the product.
\<close>

theorem CalculateCombinations_wraps_mod_2_64:
  fixes components suffixRange :: int64
  shows
  "(\<not> (components <s 1 \<or> 5 <s components) \<longrightarrow>
      (\<exists>r. CalculateCombinations components suffixRange = Inr r \<and>
         uint r =
           (int (prod_list (take (nat (sint components)) spec_dictionary_lengths)) *
            sint (if suffixRange <s 1 then 1 else suffixRange)) mod 2 ^ 64)) \<and>
   \<not> ((1::int64) <s 1 \<or> 5 <s (1::int64)) \<and> \<not> ((2 ^ 62 :: int64) <s 1) \<and>
   (\<exists>r. CalculateCombinations 1 (2 ^ 62) = Inr r \<and> sint r < 0 \<and>
      sint r \<noteq> int (length Adjectives) * 2 ^ 62)"
proof (intro conjI impI)
  assume v: "\<not> (components <s 1 \<or> 5 <s components)"
  show "\<exists>r. CalculateCombinations components suffixRange = Inr r \<and>
         uint r =
           (int (prod_list (take (nat (sint components)) spec_dictionary_lengths)) *
            sint (if suffixRange <s 1 then 1 else suffixRange)) mod 2 ^ 64"
    unfolding CalculateCombinations_closed_form [OF v, of suffixRange]
    using uint_word_of_int_mod [of "int (prod_list (take (nat (sint components)) spec_dictionary_lengths)) *
            sint (if suffixRange <s 1 then 1 else suffixRange)"]
    by blast
next
  show "\<not> ((1::int64) <s 1 \<or> 5 <s (1::int64))" by (rule valid_1)
next
  show s: "\<not> ((2 ^ 62 :: int64) <s 1)" by (simp add: word_sless_alt)
  have "CalculateCombinations 1 (2 ^ 62) = Inr (- (2 ^ 62))"
    using CalculateCombinations_closed_form [OF valid_1, of "2 ^ 62"] s
    by (simp add: dict_lengths)
  then show "\<exists>r. CalculateCombinations 1 (2 ^ 62) = Inr r \<and> sint r < 0 \<and>
      sint r \<noteq> int (length Adjectives) * 2 ^ 62"
    by (simp add: length_Adjectives)
qed

theorem CalculateCombinations_wraps_mod_2_64_witness:
  "\<exists>r. CalculateCombinations 1 (2 ^ 62) = Inr r \<and> uint r = 13835058055282163712"
  using CalculateCombinations_wraps_mod_2_64 [of 1 "2 ^ 62"]
  by (simp add: word_sless_alt dict_lengths)

section \<open>Generate\<close>

lemma consume_0 [simp]: "consume 0 w = w"
  by (simp add: consume_def)

lemma consume_consume: "consume m (consume n w) = consume (n + m) w"
  by (simp add: consume_def ac_simps)

lemma rand_source_consume [simp]: "rand_source (consume n w) k = rand_source w (k + n)"
  by (simp add: consume_def)

lemma randomItem_eq:
  assumes "items \<noteq> []"
  shows "randomItem items w = (Inr (items ! (rand_source w 0 mod length items)), consume 1 w)"
proof -
  have "0 < length items" using assms by simp
  then have "rand_source w 0 mod length items < length items" by simp
  then show ?thesis
    using assms by (simp add: randomItem_def rand_Intn_def index_def len_def consume_def)
qed

lemma dictionaries_nonempty: "j < 5 \<Longrightarrow> dictionaries ! j \<noteq> []"
proof -
  assume "j < 5"
  then have "j \<in> {0, 1, 2, 3, 4}" by auto
  then show ?thesis
    by (auto simp: dictionaries_def Adjectives_def Nouns_def Verbs_def Adverbs_def Prepositions_def)
qed

lemma componentGenerators_index:
  assumes "0 \<le> j" "j < 5"
  shows "index componentGenerators j = Some (randomItem (dictionaries ! nat j))"
proof -
  have "nat j \<in> {0, 1, 2, 3, 4}" using assms by auto
  then show ?thesis
    using assms by (auto simp: index_def len_def componentGenerators_def dictionaries_def)
qed

lemma Generate_loop_eq:
  "0 \<le> sint i \<Longrightarrow> sint i \<le> sint n \<Longrightarrow> sint n \<le> 5 \<Longrightarrow>
   Generate_loop n i parts w =
     (Inr (parts @
           map (\<lambda>k. (dictionaries ! (nat (sint i) + k)) !
                     (rand_source w k mod length (dictionaries ! (nat (sint i) + k))))
             [0..<nat (sint n) - nat (sint i)]),
      consume (nat (sint n) - nat (sint i)) w)"
proof (induction n i parts w rule: Generate_loop.induct)
  case (1 n i parts w)
  show ?case
  proof (cases "i <s n")
    case False
    then have "sint i = sint n" using 1(3) by (simp add: word_sless_alt)
    then show ?thesis using False by (simp add: Generate_loop.simps)
  next
    case True
    then have lt: "sint i < sint n" by (simp add: word_sless_alt)
    have s: "sint (i + 1) = sint i + 1" by (rule sint_succ_below [OF True])
    let ?d = "dictionaries ! nat (sint i)"
    let ?x = "?d ! (rand_source w 0 mod length ?d)"
    have j5: "nat (sint i) < 5" using lt 1(4) 1(2) by simp
    have idx: "index componentGenerators (sint i) = Some (randomItem ?d)"
      using componentGenerators_index [of "sint i"] 1(2) lt 1(4) by simp
    have item: "randomItem ?d w = (Inr ?x, consume 1 w)"
      by (rule randomItem_eq [OF dictionaries_nonempty [OF j5]])
    define m where "m = nat (sint n) - nat (sint (i + 1))"
    define j where "j = nat (sint i)"
    have n1: "nat (sint n) - nat (sint i) = Suc m"
      using lt 1(2) s by (simp add: m_def)
    have ni: "nat (sint (i + 1)) = Suc j" using 1(2) s by (simp add: j_def)
    have ih: "Generate_loop n (i + 1) (parts @ [?x]) (consume 1 w) =
       (Inr ((parts @ [?x]) @
           map (\<lambda>k. (dictionaries ! (nat (sint (i + 1)) + k)) !
                     (rand_source (consume 1 w) k mod length (dictionaries ! (nat (sint (i + 1)) + k))))
             [0..<m]),
        consume m (consume 1 w))"
      unfolding m_def
      using 1(1) [OF True idx _ _ ] item 1(2) lt 1(4) s
      by simp
    have lhs: "Generate_loop n i parts w = Generate_loop n (i + 1) (parts @ [?x]) (consume 1 w)"
      by (subst Generate_loop.simps) (simp add: True idx item)
    have rhs: "(Inr (parts @
           map (\<lambda>k. (dictionaries ! (nat (sint i) + k)) !
                     (rand_source w k mod length (dictionaries ! (nat (sint i) + k))))
             [0..<nat (sint n) - nat (sint i)]),
      consume (nat (sint n) - nat (sint i)) w) =
       (Inr ((parts @ [?x]) @
           map (\<lambda>k. (dictionaries ! (nat (sint (i + 1)) + k)) !
                     (rand_source (consume 1 w) k mod length (dictionaries ! (nat (sint (i + 1)) + k))))
             [0..<m]),
        consume m (consume 1 w))"
      unfolding n1 ni
      by (simp add: map_upt_Suc consume_consume j_def del: upt_Suc)
    show ?thesis
      by (simp only: lhs ih rhs)
  qed
qed

lemma Generate_loop_valid:
  fixes c :: int64
  assumes "\<not> (c <s 1 \<or> 5 <s c)"
  shows "Generate_loop c 0 [] w = (Inr (drawn_words (nat (sint c)) w), consume (nat (sint c)) w)"
  using Generate_loop_eq [of 0 c "[]" w] components_in_range [OF assms]
  by (simp add: drawn_words_def)

lemma drawn_words_empty_iff: "drawn_words n w = [] \<longleftrightarrow> n = 0"
  by (simp add: drawn_words_def)

lemma drawn_words_Suc:
  "drawn_words (Suc n) w =
     drawn_words n w @ [(dictionaries ! n) ! (rand_source w n mod length (dictionaries ! n))]"
  by (simp add: drawn_words_def)

lemma drawn_words_0: "drawn_words 0 w = []"
  by (simp add: drawn_words_def)

lemma dictionaries_nth:
  "dictionaries ! 0 = Adjectives" "dictionaries ! Suc 0 = Nouns"
  "dictionaries ! Suc (Suc 0) = Verbs" "dictionaries ! Suc (Suc (Suc 0)) = Adverbs"
  "dictionaries ! Suc (Suc (Suc (Suc 0))) = Prepositions"
  by (simp_all add: dictionaries_def)

lemma length_drawn_words [simp]: "length (drawn_words n w) = n"
  by (simp add: drawn_words_def)

lemma drawn_words_member:
  assumes "i < n" "n \<le> 5"
  shows "drawn_words n w ! i \<in> set (dictionaries ! i)"
proof -
  have "dictionaries ! i \<noteq> []" using assms by (intro dictionaries_nonempty) simp
  then have "rand_source w i mod length (dictionaries ! i) < length (dictionaries ! i)" by simp
  then show ?thesis using assms by (simp add: drawn_words_def)
qed

lemma Generate_invalid:
  assumes "opt_Components options \<noteq> 0"
    and "opt_Components options <s 1 \<or> 5 <s opt_Components options"
  shows "Generate options w = (Inl (ErrorValue ''components must be between 1 and 5''), w)"
  using assms by (auto simp: Generate_def Let_def)

lemma Generate_valid:
  fixes options :: "'a world_scheme GenerateOptions"
  defines "c \<equiv> (if opt_Components options = 0 then 2 else opt_Components options)"
  defines "sep \<equiv> (if opt_Separator options = [] then ''-'' else opt_Separator options)"
  assumes v: "\<not> (c <s 1 \<or> 5 <s c)"
  shows "Generate options w =
     (case opt_Suffix options of
        None \<Rightarrow> (Inr (Join (drawn_words (nat (sint c)) w) sep), consume (nat (sint c)) w)
      | Some g \<Rightarrow>
          (case g (consume (nat (sint c)) w) of
             (None, w'') \<Rightarrow> (Inr (Join (drawn_words (nat (sint c)) w) sep), w'')
           | (Some v, w'') \<Rightarrow> (Inr (Join (drawn_words (nat (sint c)) w @ [v]) sep), w'')))"
proof -
  define o1 where "o1 = (if opt_Components options = 0 then options\<lparr>opt_Components := 2\<rparr> else options)"
  define o2 where "o2 = (if opt_Separator o1 = [] then o1\<lparr>opt_Separator := ''-''\<rparr> else o1)"
  have c2: "opt_Components o2 = c" by (simp add: o1_def o2_def c_def)
  have sep2: "opt_Separator o2 = sep" by (simp add: o1_def o2_def sep_def)
  have sfx: "opt_Suffix o2 = opt_Suffix options" by (simp add: o1_def o2_def)
  have loop: "Generate_loop c 0 [] w = (Inr (drawn_words (nat (sint c)) w), consume (nat (sint c)) w)"
    by (rule Generate_loop_valid [OF v])
  have "Generate options w =
     (if opt_Components o2 <s 1 \<or> 5 <s opt_Components o2
         then (Inl (ErrorValue ''components must be between 1 and 5''), w)
         else
           (case Generate_loop (opt_Components o2) 0 [] w of
              (Inl e, w') \<Rightarrow> (Inl e, w')
            | (Inr parts, w') \<Rightarrow>
                (case opt_Suffix o2 of
                   None \<Rightarrow> (Inr (Join parts (opt_Separator o2)), w')
                 | Some suffixGenerator \<Rightarrow>
                     (case suffixGenerator w' of
                        (None, w'') \<Rightarrow> (Inr (Join parts (opt_Separator o2)), w'')
                      | (Some suffixValue, w'') \<Rightarrow>
                          (Inr (Join (parts @ [suffixValue]) (opt_Separator o2)), w'')))))"
    unfolding Generate_def Let_def o1_def o2_def by (rule refl)
  then show ?thesis
    unfolding c2 sep2 sfx loop using v by simp
qed

lemma Generate_succeeds:
  fixes options :: "'a world_scheme GenerateOptions"
  assumes "\<not> (opt_Components options \<noteq> 0 \<and>
              (opt_Components options <s 1 \<or> 5 <s opt_Components options))"
  shows "\<exists>s. fst (Generate options w) = Inr s"
proof -
  let ?c = "if opt_Components options = 0 then 2 else opt_Components options"
  have v: "\<not> (?c <s 1 \<or> 5 <s ?c)"
    using assms by (auto simp: word_sless_alt)
  show ?thesis
    unfolding Generate_valid [OF v]
    by (auto split: option.splits prod.splits)
qed

section \<open>Split, Join and the digit pattern\<close>

lemma Split_from_sep:
  "Split_from s0 ss cur ((s0 # ss) @ rest) = cur # Split_from s0 ss [] rest"
  by simp

lemma Split_from_nonempty: "Split_from s0 ss cur s \<noteq> []"
  by (induction s0 ss cur s rule: Split_from.induct) auto

lemma Join_Cons: "ys \<noteq> [] \<Longrightarrow> Join (x # ys) sep = x @ sep @ Join ys sep"
  by (cases ys) auto

lemma Join_Split_from: "Join (Split_from s0 ss cur s) (s0 # ss) = cur @ s"
proof (induction s0 ss cur s rule: Split_from.induct)
  case (1 s0 ss cur)
  then show ?case by simp
next
  case (2 s0 ss cur c cs)
  show ?case
  proof (cases "prefix (s0 # ss) (c # cs)")
    case True
    then obtain r where r: "c # cs = (s0 # ss) @ r" by (auto simp: prefix_def)
    then have d: "drop (length ss) cs = r" by simp
    have step: "Split_from s0 ss cur (c # cs) = cur # Split_from s0 ss [] r"
      using True d by simp
    have ih: "Join (Split_from s0 ss [] r) (s0 # ss) = r"
      using 2(1) [OF True] d by simp
    have "Join (cur # Split_from s0 ss [] r) (s0 # ss) =
        cur @ (s0 # ss) @ Join (Split_from s0 ss [] r) (s0 # ss)"
      by (rule Join_Cons [OF Split_from_nonempty])
    then show ?thesis
      unfolding r Split_from_sep ih .
  next
    case False
    have "Split_from s0 ss cur (c # cs) = Split_from s0 ss (cur @ [c]) cs"
      using False by (simp only: Split_from.simps if_False)
    then show ?thesis using 2(2) [OF False] by simp
  qed
qed

lemma Join_Split: "sep \<noteq> [] \<Longrightarrow> Join (Split s sep) sep = s"
  by (cases sep) (simp_all add: Split_def Join_Split_from)

lemma Split_nonempty: "sep \<noteq> [] \<Longrightarrow> Split s sep \<noteq> []"
  by (cases sep) (simp_all add: Split_def Split_from_nonempty)

text \<open>
  Splitting what was joined: \<^verbatim>\<open>strings.Split\<close> cuts at the first occurrence of the
  separator, so a part comes back whole exactly when no occurrence starts inside it.
\<close>

lemma Contains_iff_sublist: "Contains s substr \<longleftrightarrow> sublist substr s"
  by (induction s) (auto simp: sublist_Cons_right)

lemma Contains_length: "Contains s substr \<Longrightarrow> length substr \<le> length s"
  by (induction s) (auto dest: prefix_length_le)

lemma prefix_shorter:
  assumes "prefix sep (a @ b)" "length sep \<le> length a"
  shows "prefix sep a"
  using assms by (metis prefix_append prefix_length_prefix prefix_order.dual_order.refl prefix_same_cases prefixI)

lemma Split_from_part:
  assumes sep: "sep = s0 # ss" and n: "\<not> Contains (x @ butlast sep) sep"
  shows "Split_from s0 ss cur (x @ sep @ rest) = (cur @ x) # Split_from s0 ss [] rest"
  using n
proof (induction x arbitrary: cur)
  case Nil
  show ?case using Split_from_sep [of s0 ss cur rest] by (simp add: sep)
next
  case (Cons c cs)
  have np: "\<not> prefix sep ((c # cs) @ butlast sep)" and nc: "\<not> Contains (cs @ butlast sep) sep"
    using Cons.prems by simp_all
  have ne: "sep \<noteq> []" by (simp add: sep)
  have e: "(c # cs) @ sep @ rest = ((c # cs) @ butlast sep) @ ([last sep] @ rest)"
    using append_butlast_last_id [OF ne] by (metis append.assoc)
  have "\<not> prefix sep ((c # cs) @ sep @ rest)"
  proof
    assume "prefix sep ((c # cs) @ sep @ rest)"
    then have "prefix sep (((c # cs) @ butlast sep) @ ([last sep] @ rest))" unfolding e .
    moreover have "length sep \<le> length ((c # cs) @ butlast sep)" by simp
    ultimately have "prefix sep ((c # cs) @ butlast sep)" by (rule prefix_shorter)
    with np show False by blast
  qed
  then have "\<not> prefix (s0 # ss) (c # (cs @ sep @ rest))" by (simp add: sep)
  then have "Split_from s0 ss cur ((c # cs) @ sep @ rest) =
      Split_from s0 ss (cur @ [c]) (cs @ sep @ rest)"
    by (simp only: append_Cons Split_from.simps if_False)
  also have "\<dots> = ((cur @ [c]) @ cs) # Split_from s0 ss [] rest"
    by (rule Cons.IH [OF nc])
  finally show ?case by simp
qed

lemma Split_from_last:
  "\<not> Contains x (s0 # ss) \<Longrightarrow> Split_from s0 ss cur x = [cur @ x]"
  by (induction x arbitrary: cur) auto


lemma Split_Join_if:
  assumes sep: "sep = s0 # ss" and "parts \<noteq> []" and "splits_back parts sep"
  shows "Split_from s0 ss [] (Join parts sep) = parts"
  using assms(2,3)
proof (induction parts rule: induct_list012)
  case 1
  then show ?case by simp
next
  case (2 x)
  then show ?case using Split_from_last [of x s0 ss "[]"] by (simp add: splits_back_def sep)
next
  case (3 x y ys)
  have x: "\<not> Contains (x @ butlast sep) sep" and r: "splits_back (y # ys) sep"
    using 3(4) by (simp_all add: splits_back_def)
  have "Split_from s0 ss [] (Join (x # y # ys) sep) =
        Split_from s0 ss [] (x @ sep @ Join (y # ys) sep)" by simp
  also have "\<dots> = ([] @ x) # Split_from s0 ss [] (Join (y # ys) sep)"
    by (rule Split_from_part [OF sep x])
  also have "Split_from s0 ss [] (Join (y # ys) sep) = y # ys"
    using 3(2) r by simp
  finally show ?case by simp
qed

lemma first_occurrence:
  assumes "sep \<noteq> []" "Contains s sep"
  shows "\<exists>x rest. s = x @ sep @ rest \<and> \<not> Contains (x @ butlast sep) sep"
  using assms(2)
proof (induction s)
  case Nil
  then show ?case using assms(1) by simp
next
  case (Cons c cs)
  have "length (butlast sep) < length sep" using assms(1) by simp
  then have short: "\<not> Contains (butlast sep) sep"
    using Contains_length [of "butlast sep" sep] by linarith
  show ?case
  proof (cases "prefix sep (c # cs)")
    case True
    then obtain rest where "c # cs = sep @ rest" by (auto simp: prefix_def)
    then have "c # cs = [] @ sep @ rest \<and> \<not> Contains ([] @ butlast sep) sep"
      using short by simp
    then show ?thesis by blast
  next
    case False
    then have "Contains cs sep" using Cons.prems by simp
    then obtain x rest where x: "cs = x @ sep @ rest" "\<not> Contains (x @ butlast sep) sep"
      using Cons.IH by blast
    have "prefix ((c # x) @ butlast sep) (c # cs)"
      unfolding x(1) using append_butlast_last_id [OF assms(1)]
      by (metis append.assoc append_Cons prefixI)
    then have "\<not> prefix sep ((c # x) @ butlast sep)"
      using False prefix_order.trans by blast
    then have "c # cs = (c # x) @ sep @ rest \<and> \<not> Contains ((c # x) @ butlast sep) sep"
      using x by simp
    then show ?thesis by blast
  qed
qed

lemma splits_back_Cons:
  "ps \<noteq> [] \<Longrightarrow> splits_back (x # ps) sep \<longleftrightarrow> \<not> Contains (x @ butlast sep) sep \<and> splits_back ps sep"
  by (simp add: splits_back_def)

lemma Split_from_splits_back:
  assumes sep: "sep = s0 # ss"
  shows "splits_back (Split_from s0 ss [] s) sep"
proof (induction "length s" arbitrary: s rule: less_induct)
  case less
  show ?case
  proof (cases "Contains s sep")
    case False
    then show ?thesis using Split_from_last [of s s0 ss "[]"] by (simp add: sep splits_back_def)
  next
    case True
    have ne: "sep \<noteq> []" by (simp add: sep)
    obtain x rest where x: "s = x @ sep @ rest" "\<not> Contains (x @ butlast sep) sep"
      using first_occurrence [OF ne True] by blast
    have "length rest < length s" using x(1) ne by simp
    then have ih: "splits_back (Split_from s0 ss [] rest) sep" by (rule less)
    have "Split_from s0 ss [] s = ([] @ x) # Split_from s0 ss [] rest"
      unfolding x(1) by (rule Split_from_part [OF sep x(2)])
    then show ?thesis
      using ih x(2) by (simp add: splits_back_Cons Split_from_nonempty)
  qed
qed

lemma Split_Join_iff:
  assumes "sep \<noteq> []" "parts \<noteq> []"
  shows "Split (Join parts sep) sep = parts \<longleftrightarrow> splits_back parts sep"
proof -
  obtain s0 ss where sep: "sep = s0 # ss" using assms(1) by (cases sep) auto
  have S: "Split s sep = Split_from s0 ss [] s" for s by (simp add: Split_def sep)
  show ?thesis
  proof
    assume "Split (Join parts sep) sep = parts"
    then show "splits_back parts sep"
      using Split_from_splits_back [OF sep, of "Join parts sep"] by (simp add: S)
  next
    assume "splits_back parts sep"
    then show "Split (Join parts sep) sep = parts"
      unfolding S by (rule Split_Join_if [OF sep assms(2)])
  qed
qed

lemma Contains_hd: "sep \<noteq> [] \<Longrightarrow> Contains s sep \<Longrightarrow> hd sep \<in> set s"
  by (induction s) (auto simp: prefix_def neq_Nil_conv)

lemma MatchString_digits_iff:
  "MatchString_digits x \<longleftrightarrow> x \<noteq> [] \<and> (\<forall>c \<in> set x. is_digit c)"
  by (induction x rule: MatchString_digits.induct) auto

lemma MatchString_digits_hd: "MatchString_digits x \<Longrightarrow> is_digit (hd x)"
  by (cases x) (auto simp: MatchString_digits_iff)

lemma dictionary_words_not_digits:
  assumes "i < 5" "x \<in> set (dictionaries ! i)"
  shows "\<not> MatchString_digits x"
proof -
  have a: "\<forall>x \<in> set Adjectives. \<not> is_digit (hd x)" by (simp add: Adjectives_def is_digit_def)
  have b: "\<forall>x \<in> set Nouns. \<not> is_digit (hd x)" by (simp add: Nouns_def is_digit_def)
  have c: "\<forall>x \<in> set Verbs. \<not> is_digit (hd x)" by (simp add: Verbs_def is_digit_def)
  have d: "\<forall>x \<in> set Adverbs. \<not> is_digit (hd x)" by (simp add: Adverbs_def is_digit_def)
  have e: "\<forall>x \<in> set Prepositions. \<not> is_digit (hd x)" by (simp add: Prepositions_def is_digit_def)
  have "i \<in> {0, 1, 2, 3, 4}" using assms(1) by auto
  then have "\<not> is_digit (hd x)"
    using assms(2) a b c d e by (auto simp: dictionaries_def)
  then show ?thesis using MatchString_digits_hd by blast
qed

lemma Parse_eq:
  fixes id' separator :: string
  defines "sep \<equiv> (if separator = [] then ''-'' else separator)"
  shows "Parse id' separator =
     Inr (if MatchString_digits (last (Split id' sep))
          then \<lparr> id_Components = butlast (Split id' sep), id_Suffix = Some (last (Split id' sep)) \<rparr>
          else \<lparr> id_Components = Split id' sep, id_Suffix = None \<rparr>)"
proof -
  have ne: "Split id' sep \<noteq> []" by (rule Split_nonempty) (simp add: sep_def)
  then have pos: "0 < length (Split id' sep)" by simp
  have n: "nat (len (Split id' sep) - 1) = length (Split id' sep) - 1"
    using pos by (simp add: len_def)
  have idx: "index (Split id' sep) (len (Split id' sep) - 1) = Some (last (Split id' sep))"
    using ne pos by (simp add: index_def n last_conv_nth) (simp add: len_def)
  have sl: "slice_to (Split id' sep) (len (Split id' sep) - 1) = Some (butlast (Split id' sep))"
    using ne pos by (simp add: slice_to_def n butlast_conv_take) (simp add: len_def)
  show ?thesis
    using pos idx sl unfolding sep_def
    by (simp add: Parse_def Let_def len_def)
qed

section \<open>Parse\<close>

text \<open>
  Claim C5. \<^verbatim>\<open>Parse\<close> returns for every input (no panic): it splits the id on the
  separator, an empty separator standing for \<^verbatim>\<open>"-"\<close>, so that the parts are not empty and
  joined by the separator give the id back; when the last part is one or more ASCII digits
  and nothing else, that part is the suffix and the parts before it (possibly none) are
  the components; otherwise all parts are components and there is no suffix. In particular
  \<^verbatim>\<open>Parse("123", "-")\<close> has no components and the suffix \<^verbatim>\<open>"123"\<close>, and
  \<^verbatim>\<open>Parse("", "-")\<close> has the one component \<^verbatim>\<open>""\<close> and no suffix.
\<close>

theorem Parse_total:
  fixes id' separator :: string
  shows
  "(let sep = (if separator = [] then ''-'' else separator); parts = Split id' sep
    in parts \<noteq> [] \<and> Join parts sep = id' \<and>
       Parse id' separator =
         Inr (if last parts \<noteq> [] \<and> (\<forall>c \<in> set (last parts). c \<in> set ''0123456789'')
              then \<lparr> id_Components = butlast parts, id_Suffix = Some (last parts) \<rparr>
              else \<lparr> id_Components = parts, id_Suffix = None \<rparr>)) \<and>
   Parse ''123'' ''-'' = Inr \<lparr> id_Components = [], id_Suffix = Some ''123'' \<rparr> \<and>
   Parse [] ''-'' = Inr \<lparr> id_Components = [[]], id_Suffix = None \<rparr>"
proof -
  define sep where "sep = (if separator = [] then ''-'' else separator)"
  have ne: "sep \<noteq> []" by (simp add: sep_def)
  have m: "MatchString_digits x \<longleftrightarrow> x \<noteq> [] \<and> (\<forall>c \<in> set x. c \<in> set ''0123456789'')" for x
    unfolding MatchString_digits_iff is_digit_def ..
  have p: "Parse id' separator =
     Inr (if MatchString_digits (last (Split id' sep))
          then \<lparr> id_Components = butlast (Split id' sep), id_Suffix = Some (last (Split id' sep)) \<rparr>
          else \<lparr> id_Components = Split id' sep, id_Suffix = None \<rparr>)"
    unfolding sep_def by (rule Parse_eq)
  have 1: "Parse ''123'' ''-'' = Inr \<lparr> id_Components = [], id_Suffix = Some ''123'' \<rparr>"
    by (simp add: Parse_eq Split_def is_digit_def)
  have 2: "Parse [] ''-'' = Inr \<lparr> id_Components = [[]], id_Suffix = None \<rparr>"
    by (simp add: Parse_eq Split_def)
  show ?thesis
    unfolding Let_def sep_def [symmetric]
    using Split_nonempty [OF ne] Join_Split [OF ne] p 1 2
    by (simp only: m) simp
qed

theorem Parse_total_witness:
  "Parse ''cute-rabbit-042'' ''-'' =
     Inr \<lparr> id_Components = [''cute'', ''rabbit''], id_Suffix = Some ''042'' \<rparr> \<and>
   Parse ''cute_rabbit_swim'' ''_'' =
     Inr \<lparr> id_Components = [''cute'', ''rabbit'', ''swim''], id_Suffix = None \<rparr>"
proof -
  have a: "Split ''cute-rabbit-042'' ''-'' = [''cute'', ''rabbit'', ''042'']"
    by (simp add: Split_def)
  have b: "Split ''cute_rabbit_swim'' ''_'' = [''cute'', ''rabbit'', ''swim'']"
    by (simp add: Split_def)
  show ?thesis
    using Parse_total [of "''-''" "''cute-rabbit-042''"] Parse_total [of "''_''" "''cute_rabbit_swim''"]
    by (simp add: Let_def a b)
qed

section \<open>Generate: validation\<close>

text \<open>
  Claim C6. \<^verbatim>\<open>Generate\<close> applies the defaults before it validates: with 0 components
  it behaves as with 2 and returns no error. It fails exactly when the components are not
  0 and are below 1 or above 5, that is when they are negative or at least 6, and the
  error then carries the message \<^verbatim>\<open>components must be between 1 and 5\<close>.
\<close>

theorem Generate_validation:
  fixes options :: "'a world_scheme GenerateOptions"
  shows
  "((\<exists>e. fst (Generate options w) = Inl e) \<longleftrightarrow>
      opt_Components options \<noteq> 0 \<and>
      (opt_Components options <s 1 \<or> 5 <s opt_Components options)) \<and>
   (opt_Components options \<noteq> 0 \<and>
      (opt_Components options <s 1 \<or> 5 <s opt_Components options) \<longleftrightarrow>
    sint (opt_Components options) < 0 \<or> 6 \<le> sint (opt_Components options)) \<and>
   (\<forall>e. fst (Generate options w) = Inl e \<longrightarrow>
      e = ErrorValue ''components must be between 1 and 5'') \<and>
   Generate (options\<lparr>opt_Components := 0\<rparr>) w = Generate (options\<lparr>opt_Components := 2\<rparr>) w"
proof (intro conjI)
  let ?bad = "opt_Components options \<noteq> 0 \<and>
      (opt_Components options <s 1 \<or> 5 <s opt_Components options)"
  show "(\<exists>e. fst (Generate options w) = Inl e) \<longleftrightarrow> ?bad"
  proof
    assume "\<exists>e. fst (Generate options w) = Inl e"
    then show ?bad using Generate_succeeds [of options w] by force
  next
    assume ?bad
    then show "\<exists>e. fst (Generate options w) = Inl e"
      using Generate_invalid [of options w] by simp
  qed
  have z: "opt_Components options = 0 \<longleftrightarrow> sint (opt_Components options) = 0"
    by (metis signed_eq_0_iff)
  show "?bad \<longleftrightarrow> sint (opt_Components options) < 0 \<or> 6 \<le> sint (opt_Components options)"
    unfolding z by (auto simp: word_sless_alt)
  show "\<forall>e. fst (Generate options w) = Inl e \<longrightarrow>
      e = ErrorValue ''components must be between 1 and 5''"
  proof (intro allI impI)
    fix e assume e: "fst (Generate options w) = Inl e"
    then have ?bad using Generate_succeeds [of options w] by force
    then show "e = ErrorValue ''components must be between 1 and 5''"
      using Generate_invalid [of options w] e by simp
  qed
  show "Generate (options\<lparr>opt_Components := 0\<rparr>) w = Generate (options\<lparr>opt_Components := 2\<rparr>) w"
    by (simp add: Generate_def Let_def)
qed

theorem Generate_validation_witness:
  "fst (Generate \<lparr>opt_Components = - 1, opt_Suffix = None, opt_Separator = ''-''\<rparr>
          \<lparr>rand_source = (\<lambda>k. 0)\<rparr>) =
     Inl (ErrorValue ''components must be between 1 and 5'') \<and>
   fst (Generate \<lparr>opt_Components = 6, opt_Suffix = None, opt_Separator = ''-''\<rparr>
          \<lparr>rand_source = (\<lambda>k. 0)\<rparr>) =
     Inl (ErrorValue ''components must be between 1 and 5'') \<and>
   fst (Generate \<lparr>opt_Components = 10, opt_Suffix = None, opt_Separator = ''-''\<rparr>
          \<lparr>rand_source = (\<lambda>k. 0)\<rparr>) =
     Inl (ErrorValue ''components must be between 1 and 5'') \<and>
   \<not> (\<exists>e. fst (Generate \<lparr>opt_Components = 0, opt_Suffix = None, opt_Separator = ''-''\<rparr>
          \<lparr>rand_source = (\<lambda>k. 0)\<rparr>) = Inl e)"
proof -
  let ?w = "\<lparr>rand_source = (\<lambda>k. 0)\<rparr>"
  let ?o = "\<lambda>c. \<lparr>opt_Components = c, opt_Suffix = None :: (world \<Rightarrow> string option \<times> world) option,
      opt_Separator = ''-''\<rparr>"
  have "\<exists>e. fst (Generate (?o c) ?w) = Inl e \<Longrightarrow>
      fst (Generate (?o c) ?w) = Inl (ErrorValue ''components must be between 1 and 5'')" for c
    using Generate_validation [of "?o c" ?w] by auto
  then show ?thesis
    using Generate_validation [of "?o (- 1)" ?w] Generate_validation [of "?o 6" ?w]
      Generate_validation [of "?o 10" ?w] Generate_validation [of "?o 0" ?w]
    by (simp add: word_sless_alt)
qed

section \<open>Generate: the suffix\<close>

text \<open>
  Claim C7, amended. With a suffix generator, \<^verbatim>\<open>Generate\<close> validates the number of
  components first: outside 1..5 (after the default) it returns the error and leaves the
  state as it was, so the generator is not called. For a valid number \<open>n\<close> it calls the
  generator exactly once, in the state the \<open>n\<close> draws leave, and returns the state that
  call leaves. When the generator returns nil, the result is the \<open>n\<close> drawn words joined
  by the separator; when it returns a string, empty or blank or any other, the result is
  the \<open>n\<close> words and that string, unchanged, joined by the separator. The result split
  by the separator has exactly these parts if and only if the separator occurs neither
  in the last of them nor in any other of them followed by the separator without its
  last character; then it has \<open>n\<close> parts for nil, and \<open>n + 1\<close> parts with the string
  as the last one otherwise.
\<close>

theorem Generate_suffix_once:
  fixes options :: "'a world_scheme GenerateOptions"
  assumes "opt_Suffix options = Some g"
  shows
  "(let c = (if opt_Components options = 0 then 2 else opt_Components options);
        sep = (if opt_Separator options = [] then ''-'' else opt_Separator options);
        n = nat (sint c);
        words = drawn_words n w;
        produced = fst (g (consume n w));
        parts = words @ (case produced of None \<Rightarrow> [] | Some s \<Rightarrow> [s]);
        separable = ((\<forall>p \<in> set (butlast parts). \<not> Contains (p @ butlast sep) sep) \<and>
                     \<not> Contains (last parts) sep)
    in if c <s 1 \<or> 5 <s c
       then Generate options w = (Inl (ErrorValue ''components must be between 1 and 5''), w)
       else Generate options w = (Inr (Join parts sep), snd (g (consume n w))) \<and>
            (Split (Join parts sep) sep = parts \<longleftrightarrow> separable) \<and>
            (separable \<longrightarrow>
               (produced = None \<longrightarrow>
                  Split (Join parts sep) sep = words \<and>
                  length (Split (Join parts sep) sep) = n) \<and>
               (\<forall>s. produced = Some s \<longrightarrow>
                  Split (Join parts sep) sep = words @ [s] \<and>
                  length (Split (Join parts sep) sep) = n + 1 \<and>
                  last (Split (Join parts sep) sep) = s)))"
proof -
  let ?c = "if opt_Components options = 0 then 2 else opt_Components options"
  let ?sep = "if opt_Separator options = [] then ''-'' else opt_Separator options"
  let ?n = "nat (sint ?c)"
  let ?words = "drawn_words ?n w"
  let ?parts = "?words @ (case fst (g (consume ?n w)) of None \<Rightarrow> [] | Some s \<Rightarrow> [s])"
  let ?separable = "(\<forall>p \<in> set (butlast ?parts). \<not> Contains (p @ butlast ?sep) ?sep) \<and>
                     \<not> Contains (last ?parts) ?sep"
  show ?thesis
  proof (cases "?c <s 1 \<or> 5 <s ?c")
    case True
    have nz: "opt_Components options \<noteq> 0"
    proof
      assume "opt_Components options = 0"
      then show False using True by (simp add: word_sless_alt)
    qed
    then have "opt_Components options <s 1 \<or> 5 <s opt_Components options" using True by simp
    then have "Generate options w = (Inl (ErrorValue ''components must be between 1 and 5''), w)"
      by (rule Generate_invalid [OF nz])
    then show ?thesis using True by (simp add: Let_def)
  next
    case False
    have n: "1 \<le> sint ?c" using components_in_range [OF False] by simp
    have G: "Generate options w = (Inr (Join ?parts ?sep), snd (g (consume ?n w)))"
      unfolding Generate_valid [OF False] assms
      by (simp split: option.splits prod.splits)
    have "0 < ?n" using n by simp
    then have ne: "?parts \<noteq> []" by (simp add: drawn_words_empty_iff)
    have sep: "?sep \<noteq> []" by simp
    have I: "Split (Join ?parts ?sep) ?sep = ?parts \<longleftrightarrow> ?separable"
      unfolding Split_Join_iff [OF sep ne] splits_back_def ..
    have C: "?separable \<longrightarrow>
               (fst (g (consume ?n w)) = None \<longrightarrow>
                  Split (Join ?parts ?sep) ?sep = ?words \<and>
                  length (Split (Join ?parts ?sep) ?sep) = ?n) \<and>
               (\<forall>s. fst (g (consume ?n w)) = Some s \<longrightarrow>
                  Split (Join ?parts ?sep) ?sep = ?words @ [s] \<and>
                  length (Split (Join ?parts ?sep) ?sep) = ?n + 1 \<and>
                  last (Split (Join ?parts ?sep) ?sep) = s)"
    proof
      assume ?separable
      then have S: "Split (Join ?parts ?sep) ?sep = ?parts" using I by blast
      show "(fst (g (consume ?n w)) = None \<longrightarrow>
                  Split (Join ?parts ?sep) ?sep = ?words \<and>
                  length (Split (Join ?parts ?sep) ?sep) = ?n) \<and>
               (\<forall>s. fst (g (consume ?n w)) = Some s \<longrightarrow>
                  Split (Join ?parts ?sep) ?sep = ?words @ [s] \<and>
                  length (Split (Join ?parts ?sep) ?sep) = ?n + 1 \<and>
                  last (Split (Join ?parts ?sep) ?sep) = s)"
        unfolding S by simp
    qed
    from G I C have F: "Generate options w = (Inr (Join ?parts ?sep), snd (g (consume ?n w))) \<and>
            (Split (Join ?parts ?sep) ?sep = ?parts \<longleftrightarrow> ?separable) \<and>
            (?separable \<longrightarrow>
               (fst (g (consume ?n w)) = None \<longrightarrow>
                  Split (Join ?parts ?sep) ?sep = ?words \<and>
                  length (Split (Join ?parts ?sep) ?sep) = ?n) \<and>
               (\<forall>s. fst (g (consume ?n w)) = Some s \<longrightarrow>
                  Split (Join ?parts ?sep) ?sep = ?words @ [s] \<and>
                  length (Split (Join ?parts ?sep) ?sep) = ?n + 1 \<and>
                  last (Split (Join ?parts ?sep) ?sep) = s))"
      by blast
    show ?thesis
      unfolding Let_def if_not_P [OF False] by (rule F)
  qed
qed

theorem Generate_suffix_once_witness:
  "Generate
     \<lparr>opt_Components = 2,
       opt_Suffix = Some (\<lambda>w. (Some [], w\<lparr>suffix_calls := Suc (suffix_calls w)\<rparr>)),
       opt_Separator = ''-''\<rparr>
     \<lparr>rand_source = (\<lambda>k. 0), suffix_calls = 0\<rparr> =
   (Inr ''cute-rabbit-'', \<lparr>rand_source = (\<lambda>k. 0), suffix_calls = 1\<rparr>) \<and>
   Split ''cute-rabbit-'' ''-'' = [''cute'', ''rabbit'', []] \<and>
   length (Split ''cute-rabbit-'' ''-'') = 2 + 1 \<and>
   last (Split ''cute-rabbit-'' ''-'') = []"
proof -
  let ?g = "\<lambda>w :: counting_world. (Some ([] :: string), w\<lparr>suffix_calls := Suc (suffix_calls w)\<rparr>)"
  let ?o = "\<lparr>opt_Components = 2, opt_Suffix = Some ?g, opt_Separator = ''-''\<rparr>"
  let ?w = "\<lparr>rand_source = (\<lambda>k. 0), suffix_calls = 0\<rparr>"
  have w: "drawn_words 2 ?w = [''cute'', ''rabbit'']"
    by (simp add: drawn_words_def dictionaries_def Adjectives_def Nouns_def numeral_2_eq_2)
  have s: "opt_Suffix ?o = Some ?g" by simp
  show ?thesis
    using Generate_suffix_once [OF s, of ?w]
    by (simp add: Let_def w consume_def word_sless_alt)
qed

text \<open>
  The claim as stated fails in three ways, each by the design of \<^verbatim>\<open>Generate\<close>. The range
  check comes before the suffix: with 6 components the generator is not called. The
  parts are joined without escaping: a suffix that holds the separator adds more than
  one part, and the last part is not the suffix; a separator that occurs in a word
  splits the word.
\<close>

theorem Generate_suffix_counterexample:
  "Generate
     \<lparr>opt_Components = 6,
       opt_Suffix = Some (\<lambda>w. (Some ''042'', w\<lparr>suffix_calls := Suc (suffix_calls w)\<rparr>)),
       opt_Separator = ''-''\<rparr>
     \<lparr>rand_source = (\<lambda>k. 0), suffix_calls = 0\<rparr> =
   (Inl (ErrorValue ''components must be between 1 and 5''),
    \<lparr>rand_source = (\<lambda>k. 0), suffix_calls = 0\<rparr>) \<and>
   Generate
     \<lparr>opt_Components = 2,
       opt_Suffix = Some (\<lambda>w. (Some ''2024-01'', w\<lparr>suffix_calls := Suc (suffix_calls w)\<rparr>)),
       opt_Separator = ''-''\<rparr>
     \<lparr>rand_source = (\<lambda>k. 0), suffix_calls = 0\<rparr> =
   (Inr ''cute-rabbit-2024-01'', \<lparr>rand_source = (\<lambda>k. 0), suffix_calls = 1\<rparr>) \<and>
   Split ''cute-rabbit-2024-01'' ''-'' = [''cute'', ''rabbit'', ''2024'', ''01''] \<and>
   length (Split ''cute-rabbit-2024-01'' ''-'') \<noteq> 2 + 1 \<and>
   last (Split ''cute-rabbit-2024-01'' ''-'') \<noteq> ''2024-01'' \<and>
   Generate
     \<lparr>opt_Components = 1,
       opt_Suffix = Some (\<lambda>w. (None, w\<lparr>suffix_calls := Suc (suffix_calls w)\<rparr>)),
       opt_Separator = ''u''\<rparr>
     \<lparr>rand_source = (\<lambda>k. 0), suffix_calls = 0\<rparr> =
   (Inr ''cute'', \<lparr>rand_source = (\<lambda>k. 0), suffix_calls = 1\<rparr>) \<and>
   Split ''cute'' ''u'' = [''c'', ''te''] \<and>
   length (Split ''cute'' ''u'') \<noteq> 1"
proof -
  let ?w = "\<lparr>rand_source = (\<lambda>k. 0), suffix_calls = 0\<rparr>"
  let ?g6 = "\<lambda>w :: counting_world. (Some ''042'', w\<lparr>suffix_calls := Suc (suffix_calls w)\<rparr>)"
  let ?o6 = "\<lparr>opt_Components = 6, opt_Suffix = Some ?g6, opt_Separator = ''-''\<rparr>"
  let ?g2 = "\<lambda>w :: counting_world. (Some ''2024-01'', w\<lparr>suffix_calls := Suc (suffix_calls w)\<rparr>)"
  let ?o2 = "\<lparr>opt_Components = 2, opt_Suffix = Some ?g2, opt_Separator = ''-''\<rparr>"
  let ?g1 = "\<lambda>w :: counting_world. (None :: string option, w\<lparr>suffix_calls := Suc (suffix_calls w)\<rparr>)"
  let ?o1 = "\<lparr>opt_Components = 1, opt_Suffix = Some ?g1, opt_Separator = ''u''\<rparr>"
  have A: "Generate ?o6 ?w = (Inl (ErrorValue ''components must be between 1 and 5''), ?w)"
    by (rule Generate_invalid) (simp_all add: word_sless_alt)
  have w2: "drawn_words 2 ?w = [''cute'', ''rabbit'']"
    by (simp add: drawn_words_def dictionaries_def Adjectives_def Nouns_def numeral_2_eq_2)
  have v2: "\<not> ((if opt_Components ?o2 = 0 then 2 else opt_Components ?o2) <s 1 \<or>
            5 <s (if opt_Components ?o2 = 0 then 2 else opt_Components ?o2))"
    by (simp add: word_sless_alt)
  have B: "Generate ?o2 ?w =
      (Inr ''cute-rabbit-2024-01'', \<lparr>rand_source = (\<lambda>k. 0), suffix_calls = 1\<rparr>)"
    unfolding Generate_valid [OF v2] by (simp add: w2 consume_def)
  have S2: "Split ''cute-rabbit-2024-01'' ''-'' = [''cute'', ''rabbit'', ''2024'', ''01'']"
    by (simp add: Split_def)
  have w1: "drawn_words (Suc 0) ?w = [''cute'']"
    by (simp add: drawn_words_def dictionaries_def Adjectives_def)
  have v1: "\<not> ((if opt_Components ?o1 = 0 then 2 else opt_Components ?o1) <s 1 \<or>
            5 <s (if opt_Components ?o1 = 0 then 2 else opt_Components ?o1))"
    by (simp add: word_sless_alt)
  have C: "Generate ?o1 ?w = (Inr ''cute'', \<lparr>rand_source = (\<lambda>k. 0), suffix_calls = 1\<rparr>)"
    unfolding Generate_valid [OF v1] by (simp add: w1 consume_def)
  have S1: "Split ''cute'' ''u'' = [''c'', ''te'']"
    by (simp add: Split_def)
  show ?thesis
    unfolding A B C S1 S2 by simp
qed

section \<open>Generate: splitting and parsing the result\<close>

text \<open>
  For \<open>n\<close> components, \<open>n\<close> in 1..5, no suffix generator and every outcome of the draws,
  \<^verbatim>\<open>Generate\<close> returns the \<open>n\<close> drawn words joined by the effective separator, the \<open>i\<close>-th
  word from the \<open>i\<close>-th dictionary. The result split by the separator has exactly these
  parts if and only if the words split back, and then \<^verbatim>\<open>Parse\<close> with the same
  separator recovers them as its \<open>n\<close> components, with no suffix.
\<close>

lemma Generate_roundtrip:
  fixes options :: "'a world_scheme GenerateOptions"
  assumes "opt_Suffix options = None"
    and "1 \<le> sint (opt_Components options)" and "sint (opt_Components options) \<le> 5"
  shows
  "(let n = nat (sint (opt_Components options));
        sep = (if opt_Separator options = [] then ''-'' else opt_Separator options);
        words = drawn_words n w
    in fst (Generate options w) = Inr (Join words sep) \<and>
       length words = n \<and>
       (\<forall>i < n. words ! i \<in> set (dictionaries ! i)) \<and>
       (Split (Join words sep) sep = words \<longleftrightarrow> splits_back words sep) \<and>
       (splits_back words sep \<longrightarrow>
          Parse (Join words sep) (opt_Separator options) =
            Inr \<lparr> id_Components = words, id_Suffix = None \<rparr>))"
proof -
  let ?c = "opt_Components options"
  let ?sep = "if opt_Separator options = [] then ''-'' else opt_Separator options"
  let ?n = "nat (sint ?c)"
  let ?words = "drawn_words ?n w"
  have nz: "?c \<noteq> 0" using assms(2) by auto
  have v: "\<not> ((if ?c = 0 then 2 else ?c) <s 1 \<or> 5 <s (if ?c = 0 then 2 else ?c))"
    using assms(2,3) nz by (simp add: word_sless_alt)
  have n: "0 < ?n" "?n \<le> 5" using assms(2,3) by simp_all
  have G: "fst (Generate options w) = Inr (Join ?words ?sep)"
    unfolding Generate_valid [OF v] using assms(1) nz by simp
  have mem: "\<forall>i < ?n. ?words ! i \<in> set (dictionaries ! i)"
    using drawn_words_member [of _ ?n w] n by simp
  have ne: "?words \<noteq> []" using n(1) by (simp add: drawn_words_empty_iff)
  have last_mem: "last ?words \<in> set (dictionaries ! (?n - 1))"
    using mem n ne by (simp add: last_conv_nth)
  have nd: "\<not> MatchString_digits (last ?words)"
    using dictionary_words_not_digits [OF _ last_mem] n by simp
  have sep: "?sep \<noteq> []" by simp
  have I: "Split (Join ?words ?sep) ?sep = ?words \<longleftrightarrow> splits_back ?words ?sep"
    by (rule Split_Join_iff [OF sep ne])
  have R: "splits_back ?words ?sep \<longrightarrow>
          Parse (Join ?words ?sep) (opt_Separator options) =
            Inr \<lparr> id_Components = ?words, id_Suffix = None \<rparr>"
  proof
    assume "splits_back ?words ?sep"
    then have S: "Split (Join ?words ?sep) ?sep = ?words" using I by blast
    show "Parse (Join ?words ?sep) (opt_Separator options) =
            Inr \<lparr> id_Components = ?words, id_Suffix = None \<rparr>"
      using nd by (simp add: Parse_eq S)
  qed
  show ?thesis
    unfolding Let_def using G mem I R by simp
qed

text \<open>
  The dictionaries hold one word with the default separator in it, the noun
  \<^verbatim>\<open>guinea-pig\<close>: with the default separator every result without that noun splits
  back into the drawn words.
\<close>

lemma hyphen_only_in_guinea_pig:
  assumes "i < 5" "x \<in> set (dictionaries ! i)" "x \<noteq> ''guinea-pig''"
  shows "CHR ''-'' \<notin> set x"
proof -
  have a: "\<forall>x \<in> set Adjectives. CHR ''-'' \<notin> set x" by (simp add: Adjectives_def)
  have b: "\<forall>x \<in> set Nouns. x \<noteq> ''guinea-pig'' \<longrightarrow> CHR ''-'' \<notin> set x" by (simp add: Nouns_def)
  have c: "\<forall>x \<in> set Verbs. CHR ''-'' \<notin> set x" by (simp add: Verbs_def)
  have d: "\<forall>x \<in> set Adverbs. CHR ''-'' \<notin> set x" by (simp add: Adverbs_def)
  have e: "\<forall>x \<in> set Prepositions. CHR ''-'' \<notin> set x" by (simp add: Prepositions_def)
  have "i \<in> {0, 1, 2, 3, 4}" using assms(1) by auto
  then show ?thesis
    using assms(2,3) a b c d e by (auto simp: dictionaries_def)
qed

lemma Generate_default_separator_roundtrip:
  fixes options :: "'a world_scheme GenerateOptions"
  assumes "opt_Suffix options = None"
    and "1 \<le> sint (opt_Components options)" and "sint (opt_Components options) \<le> 5"
    and "opt_Separator options = [] \<or> opt_Separator options = ''-''"
    and "''guinea-pig'' \<notin> set (drawn_words (nat (sint (opt_Components options))) w)"
  shows "fst (Generate options w) =
           Inr (Join (drawn_words (nat (sint (opt_Components options))) w) ''-'')"
    and "Split (Join (drawn_words (nat (sint (opt_Components options))) w) ''-'') ''-'' =
           drawn_words (nat (sint (opt_Components options))) w"
    and "Parse (Join (drawn_words (nat (sint (opt_Components options))) w) ''-'')
           (opt_Separator options) =
           Inr \<lparr> id_Components = drawn_words (nat (sint (opt_Components options))) w,
                 id_Suffix = None \<rparr>"
proof -
  let ?n = "nat (sint (opt_Components options))"
  let ?words = "drawn_words ?n w"
  have sep: "(if opt_Separator options = [] then ''-'' else opt_Separator options) = ''-''"
    using assms(4) by auto
  have n: "?n \<le> 5" using assms(3) by simp
  have free: "CHR ''-'' \<notin> set x" if "x \<in> set ?words" for x
  proof -
    from that obtain i where "i < length ?words" "?words ! i = x"
      unfolding in_set_conv_nth by blast
    then have i: "i < ?n" "x = ?words ! i" by simp_all
    have "x \<in> set (dictionaries ! i)"
      unfolding i(2) by (rule drawn_words_member [OF i(1) n])
    moreover have "x \<noteq> ''guinea-pig''" using that assms(5) by auto
    moreover have "i < 5" using i(1) n by simp
    ultimately show ?thesis by (intro hyphen_only_in_guinea_pig)
  qed
  have nc: "\<not> Contains x ''-''" if "x \<in> set ?words" for x
    using Contains_hd [of "''-''" x] free [OF that] by auto
  have ne: "?words \<noteq> []" using assms(2) by (simp add: drawn_words_empty_iff)
  have sb: "splits_back ?words ''-''"
    unfolding splits_back_def using nc ne by (auto dest: in_set_butlastD)
  note R = Generate_roundtrip [OF assms(1-3), of w, unfolded Let_def sep]
  show "fst (Generate options w) = Inr (Join ?words ''-'')" using R by blast
  show "Split (Join ?words ''-'') ''-'' = ?words" using R sb by blast
  show "Parse (Join ?words ''-'') (opt_Separator options) =
           Inr \<lparr> id_Components = ?words, id_Suffix = None \<rparr>" using R sb by blast
qed

text \<open>
  Claim C1 says that the result for \<open>n\<close> components and no suffix generator, split by
  the effective separator, has exactly \<open>n\<close> parts, the \<open>i\<close>-th from the \<open>i\<close>-th
  dictionary, and that \<^verbatim>\<open>Parse\<close> recovers \<open>n\<close> components and no suffix. The code breaks
  this at the default separator: for two components, when the draws select the first
  adjective and the noun \<^verbatim>\<open>guinea-pig\<close>, the result \<^verbatim>\<open>cute-guinea-pig\<close> splits into three
  parts, the second of them not a noun of the dictionary, and \<^verbatim>\<open>Parse\<close> returns three
  components.
\<close>

theorem Generate_default_separator_inside_noun:
  "fst (Generate \<lparr>opt_Components = 2, opt_Suffix = None, opt_Separator = []\<rparr>
          \<lparr>rand_source = (\<lambda>k. if k = 0 then 0 else 62)\<rparr>) = Inr ''cute-guinea-pig'' \<and>
   ''cute'' \<in> set Adjectives \<and> ''guinea-pig'' \<in> set Nouns \<and>
   Split ''cute-guinea-pig'' ''-'' = [''cute'', ''guinea'', ''pig''] \<and>
   length (Split ''cute-guinea-pig'' ''-'') = 3 \<and>
   Split ''cute-guinea-pig'' ''-'' ! 1 \<notin> set Nouns \<and>
   Parse ''cute-guinea-pig'' ''-'' =
     Inr \<lparr> id_Components = [''cute'', ''guinea'', ''pig''], id_Suffix = None \<rparr> \<and>
   Parse ''cute-guinea-pig'' [] =
     Inr \<lparr> id_Components = [''cute'', ''guinea'', ''pig''], id_Suffix = None \<rparr>"
proof -
  let ?o = "\<lparr>opt_Components = 2, opt_Suffix = None :: (world \<Rightarrow> string option \<times> world) option,
      opt_Separator = []\<rparr>"
  let ?w = "\<lparr>rand_source = (\<lambda>k. if k = 0 then 0 else 62)\<rparr>"
  have w: "drawn_words 2 ?w = [''cute'', ''guinea-pig'']"
    by (simp add: drawn_words_def dictionaries_def Adjectives_def Nouns_def numeral_2_eq_2)
  have v: "\<not> ((if opt_Components ?o = 0 then 2 else opt_Components ?o) <s 1 \<or>
            5 <s (if opt_Components ?o = 0 then 2 else opt_Components ?o))"
    by (simp add: word_sless_alt)
  have G: "fst (Generate ?o ?w) = Inr ''cute-guinea-pig''"
    unfolding Generate_valid [OF v] by (simp add: w)
  have S: "Split ''cute-guinea-pig'' ''-'' = [''cute'', ''guinea'', ''pig'']"
    by (simp add: Split_def)
  have P: "Parse ''cute-guinea-pig'' [] =
     Inr \<lparr> id_Components = [''cute'', ''guinea'', ''pig''], id_Suffix = None \<rparr>"
    by (simp add: Parse_eq S is_digit_def)
  have P': "Parse ''cute-guinea-pig'' ''-'' =
     Inr \<lparr> id_Components = [''cute'', ''guinea'', ''pig''], id_Suffix = None \<rparr>"
    by (simp add: Parse_eq S is_digit_def)
  have A: "''cute'' \<in> set Adjectives" by (simp add: Adjectives_def)
  have N: "''guinea-pig'' \<in> set Nouns" by (simp add: Nouns_def)
  have N': "''guinea'' \<notin> set Nouns" by (simp add: Nouns_def)
  show ?thesis unfolding S using G P P' A N N' by simp
qed

section \<open>Rounding to float64\<close>

lemma powi_less_D: "(2::real) powi a < 2 powi b \<Longrightarrow> a < b"
  using power_int_increasing [of b a "2::real"] by (cases "a < b") auto

lemma powi_neg_nat: "(2::real) powi (- int k) = 1 / 2 ^ k"
  by (simp add: power_int_def power_one_over)

lemma binade_bounds:
  assumes "x \<noteq> 0"
  shows "2 powi binade x \<le> \<bar>x\<bar>" and "\<bar>x\<bar> < 2 powi (binade x + 1)"
proof -
  have "2 powi binade x \<le> \<bar>x\<bar> \<and> \<bar>x\<bar> < 2 powi (binade x + 1)"
  proof (cases "1 \<le> \<bar>x\<bar>")
    case True
    define n where "n = nat \<lfloor>\<bar>x\<bar>\<rfloor>"
    define L where "L = floorlog 2 n"
    have fl: "1 \<le> \<lfloor>\<bar>x\<bar>\<rfloor>" using True by (simp add: le_floor_iff)
    then have rn: "real n = of_int \<lfloor>\<bar>x\<bar>\<rfloor>" unfolding n_def by simp
    have n: "0 < n" "real n \<le> \<bar>x\<bar>" "\<bar>x\<bar> < real n + 1"
    proof -
      show "0 < n" using fl unfolding n_def by simp
      show "real n \<le> \<bar>x\<bar>" unfolding rn by (rule of_int_floor_le)
      show "\<bar>x\<bar> < real n + 1" unfolding rn by linarith
    qed
    have fb: "2 ^ (L - 1) \<le> n" "n < 2 ^ L"
      using floorlog_bounds [of n 2] n(1) unfolding L_def by simp_all
    have L: "0 < L" using fb(2) n(1) by (cases L) simp_all
    have b: "binade x = int L - 1" using True by (simp add: binade_def n_def L_def)
    have p1: "(2::real) powi (int L - 1) = 2 ^ (L - 1)"
      using L by (simp add: power_int_def nat_diff_distrib')
    have p2: "(2::real) powi (int L - 1 + 1) = 2 ^ L"
      by (simp add: power_int_def)
    have "(2::real) ^ (L - 1) \<le> real n" using fb(1) by (metis of_nat_le_iff of_nat_numeral of_nat_power)
    moreover have "real n + 1 \<le> 2 ^ L"
    proof -
      have "n + 1 \<le> 2 ^ L" using fb(2) by simp
      then have "real (n + 1) \<le> real (2 ^ L)" by (simp only: of_nat_le_iff)
      then show ?thesis by simp
    qed
    ultimately show ?thesis unfolding b p1 p2 using n by linarith
  next
    case False
    define y where "y = 1 / \<bar>x\<bar>"
    define M where "M = nat \<lceil>y\<rceil> - 1"
    define L where "L = floorlog 2 M"
    have ax: "0 < \<bar>x\<bar>" "\<bar>x\<bar> < 1" using assms False by simp_all
    then have y1: "1 < y" unfolding y_def by simp
    then have c: "2 \<le> \<lceil>y\<rceil>" by linarith
    have "int M = \<lceil>y\<rceil> - 1" using c unfolding M_def by arith
    then have "real_of_int (int M) = real_of_int (\<lceil>y\<rceil> - 1)" by (simp only:)
    then have rM: "real M = of_int \<lceil>y\<rceil> - 1" by simp
    have M: "0 < M" "real M < y" "y \<le> real M + 1"
    proof -
      show "0 < M" using c unfolding M_def by simp
      show "real M < y" unfolding rM by linarith
      show "y \<le> real M + 1" unfolding rM by simp
    qed
    have fb: "2 ^ (L - 1) \<le> M" "M < 2 ^ L"
      using floorlog_bounds [of M 2] M(1) unfolding L_def by simp_all
    have L: "0 < L" using fb(2) M(1) by (cases L) simp_all
    have b: "binade x = - int L" using False by (simp add: binade_def M_def L_def y_def)
    have p1: "(2::real) powi (- int L) = 1 / 2 ^ L"
      by (rule powi_neg_nat)
    have p2: "(2::real) powi (- int L + 1) = 1 / 2 ^ (L - 1)"
    proof -
      have "- int L + 1 = - int (L - 1)" using L by arith
      then show ?thesis by (simp only: powi_neg_nat)
    qed
    have "(2::real) ^ (L - 1) \<le> real M" using fb(1) by (metis of_nat_le_iff of_nat_numeral of_nat_power)
    then have lo: "(2::real) ^ (L - 1) < y" using M(2) by linarith
    have "real M + 1 \<le> 2 ^ L"
    proof -
      have "M + 1 \<le> 2 ^ L" using fb(2) by simp
      then have "real (M + 1) \<le> real (2 ^ L)" by (simp only: of_nat_le_iff)
      then show ?thesis by simp
    qed
    then have hi: "y \<le> 2 ^ L" using M(3) by linarith
    have "1 / 2 ^ L \<le> \<bar>x\<bar>"
      using hi ax(1) unfolding y_def by (simp add: field_simps)
    moreover have "\<bar>x\<bar> < 1 / 2 ^ (L - 1)"
      using lo ax(1) unfolding y_def by (simp add: field_simps)
    ultimately show ?thesis unfolding b p1 p2 by simp
  qed
  then show "2 powi binade x \<le> \<bar>x\<bar>" and "\<bar>x\<bar> < 2 powi (binade x + 1)" by simp_all
qed

lemma binade_eqI:
  assumes "2 powi e \<le> \<bar>x\<bar>" "\<bar>x\<bar> < 2 powi (e + 1)"
  shows "binade x = e"
proof -
  have "(0::real) < 2 powi e" by simp
  then have "0 < \<bar>x\<bar>" using assms(1) by linarith
  then have "x \<noteq> 0" by simp
  note b = binade_bounds [OF this]
  have "(2::real) powi e < 2 powi (binade x + 1)" using assms(1) b(2) by linarith
  then have "e < binade x + 1" by (rule powi_less_D)
  moreover have "(2::real) powi binade x < 2 powi (e + 1)" using assms(2) b(1) by linarith
  then have "binade x < e + 1" by (rule powi_less_D)
  ultimately show ?thesis by simp
qed

lemmas powi_eval = power_int_def power_one_over

lemma round_half_even_of_int [simp]: "round_half_even (of_int k) = k"
  by (simp add: round_half_even_def)

lemma round_half_even_range: "\<lfloor>x\<rfloor> \<le> round_half_even x \<and> round_half_even x \<le> \<lfloor>x\<rfloor> + 1"
  by (simp add: round_half_even_def Let_def)

lemma round_half_even_mono:
  assumes "x \<le> y"
  shows "round_half_even x \<le> round_half_even y"
proof (cases "\<lfloor>x\<rfloor> = \<lfloor>y\<rfloor>")
  case True
  then have "x - of_int \<lfloor>x\<rfloor> \<le> y - of_int \<lfloor>y\<rfloor>" using assms by simp
  then show ?thesis
    using True by (auto simp: round_half_even_def Let_def)
next
  case False
  then have "\<lfloor>x\<rfloor> < \<lfloor>y\<rfloor>" using assms floor_mono [of x y] by linarith
  then show ?thesis
    using round_half_even_range [of x] round_half_even_range [of y] by linarith
qed

lemma round_half_even_ge: "of_int k \<le> x \<Longrightarrow> k \<le> round_half_even x"
  using round_half_even_mono [of "of_int k" x] by simp

lemma round_half_even_le: "x \<le> of_int k \<Longrightarrow> round_half_even x \<le> k"
  using round_half_even_mono [of x "of_int k"] by simp

lemma powi_add: "(2::real) powi (a + b) = 2 powi a * 2 powi b"
  by (simp add: power_int_add)

lemma powi_pos [simp]: "(0::real) < 2 powi a"
  by simp

lemma scale_back: "(2::real) ^ 52 * 2 powi (b - 52) = 2 powi b"
proof -
  have "(2::real) powi (52 + (b - 52)) = 2 powi 52 * 2 powi (b - 52)" by (rule powi_add)
  moreover have "(2::real) powi 52 = 2 ^ 52" by (simp only: power_int_numeral)
  moreover have "52 + (b - 52) = b" by simp
  ultimately show ?thesis by (simp only:)
qed

lemma scaled_bounds:
  assumes "x \<noteq> 0"
  shows "2 ^ 52 \<le> \<bar>x\<bar> * 2 powi (52 - binade x)" and "\<bar>x\<bar> * 2 powi (52 - binade x) < 2 ^ 53"
proof -
  let ?s = "(2::real) powi (52 - binade x)"
  have s: "0 < ?s" by simp
  have "2 powi binade x * ?s \<le> \<bar>x\<bar> * ?s"
    using binade_bounds(1) [OF assms] s by (simp only: mult_le_cancel_right_pos)
  moreover have "2 powi binade x * ?s = (2::real) powi 52"
    unfolding powi_add [symmetric] by simp
  ultimately show "2 ^ 52 \<le> \<bar>x\<bar> * ?s" by simp
  have "\<bar>x\<bar> * ?s < 2 powi (binade x + 1) * ?s"
    using binade_bounds(2) [OF assms] s by (simp only: mult_less_cancel_right_pos)
  moreover have "2 powi (binade x + 1) * ?s = (2::real) powi 53"
    unfolding powi_add [symmetric] by simp
  ultimately show "\<bar>x\<bar> * ?s < 2 ^ 53" by simp
qed

lemma round_float64_nonzero:
  "x \<noteq> 0 \<Longrightarrow>
   round_float64 x =
     of_int (round_half_even (x * 2 powi (52 - binade x))) * 2 powi (binade x - 52)"
  by (simp add: round_float64_def)

lemma round_float64_pos:
  assumes "0 < x"
  shows "2 powi binade x \<le> round_float64 x"
proof -
  let ?s = "(2::real) powi (52 - binade x)"
  have "of_int (2 ^ 52) \<le> x * ?s" using scaled_bounds(1) [of x] assms by simp
  then have "2 ^ 52 \<le> round_half_even (x * ?s)" by (rule round_half_even_ge)
  then have "(2::real) ^ 52 \<le> of_int (round_half_even (x * ?s))"
    by (metis of_int_le_iff of_int_numeral of_int_power)
  then have "(2::real) ^ 52 * 2 powi (binade x - 52) \<le>
      of_int (round_half_even (x * ?s)) * 2 powi (binade x - 52)"
    by (simp only: mult_le_cancel_right_pos powi_pos)
  then have "(2::real) powi binade x \<le>
      of_int (round_half_even (x * ?s)) * 2 powi (binade x - 52)"
    unfolding scale_back .
  moreover have "round_float64 x = of_int (round_half_even (x * ?s)) * 2 powi (binade x - 52)"
    by (rule round_float64_nonzero) (use assms in simp)
  ultimately show ?thesis by linarith
qed

lemma round_float64_neg:
  assumes "x < 0"
  shows "round_float64 x \<le> - (2 powi binade x)"
proof -
  let ?s = "(2::real) powi (52 - binade x)"
  have "x * ?s \<le> of_int (- (2 ^ 52))" using scaled_bounds(1) [of x] assms by simp
  then have "round_half_even (x * ?s) \<le> - (2 ^ 52)" by (rule round_half_even_le)
  then have "of_int (round_half_even (x * ?s)) \<le> - ((2::real) ^ 52)"
    by (metis of_int_le_iff of_int_minus of_int_numeral of_int_power)
  then have "of_int (round_half_even (x * ?s)) * 2 powi (binade x - 52) \<le>
      - ((2::real) ^ 52) * 2 powi (binade x - 52)"
    by (simp only: mult_le_cancel_right_pos powi_pos)
  moreover have "- ((2::real) ^ 52) * 2 powi (binade x - 52) = - (2 powi binade x)"
    using scale_back [of "binade x"] by (simp only: mult_minus_left)
  moreover have "round_float64 x = of_int (round_half_even (x * ?s)) * 2 powi (binade x - 52)"
    by (rule round_float64_nonzero) (use assms in simp)
  ultimately show ?thesis by linarith
qed

lemma round_float64_sign:
  "0 < x \<Longrightarrow> 0 < round_float64 x" "x < 0 \<Longrightarrow> round_float64 x < 0"
  "round_float64 0 = 0"
proof -
  show "0 < x \<Longrightarrow> 0 < round_float64 x"
    using round_float64_pos [of x] powi_pos [of "binade x"] by linarith
  show "x < 0 \<Longrightarrow> round_float64 x < 0"
    using round_float64_neg [of x] powi_pos [of "binade x"] by linarith
  show "round_float64 0 = 0" by (simp add: round_float64_def)
qed

lemma powi_nonneg_int: "0 \<le> k \<Longrightarrow> (2::real) powi k = of_int (2 ^ nat k)"
  by (simp add: power_int_def)

lemma binade_bounds_pos:
  assumes "0 < x"
  shows "2 powi binade x \<le> x" and "x < 2 powi (binade x + 1)"
proof -
  have a: "\<bar>x\<bar> = x" and n: "x \<noteq> 0" using assms by simp_all
  show "2 powi binade x \<le> x" using binade_bounds(1) [OF n] unfolding a .
  show "x < 2 powi (binade x + 1)" using binade_bounds(2) [OF n] unfolding a .
qed

text \<open>A number with a significand below \<open>2 ^ 53\<close> lies on the grid of its binade.\<close>

lemma on_grid:
  assumes m: "0 < m" "m < 2 ^ 53" and b: "binade (of_int m * 2 powi e) = b"
  shows "0 \<le> e + 52 - b"
    and "real_of_int m * 2 powi e * 2 powi (52 - b) = of_int (m * 2 ^ nat (e + 52 - b))"
proof -
  let ?x = "real_of_int m * 2 powi e"
  have x: "0 < ?x" using m(1) by simp
  have "2 powi b \<le> ?x" using binade_bounds_pos(1) [OF x] unfolding b .
  also have "?x < 2 ^ 53 * 2 powi e"
  proof -
    have "real_of_int m < 2 ^ 53" using m(2) by (metis of_int_less_iff of_int_numeral of_int_power)
    then show ?thesis by (simp only: mult_less_cancel_right_pos powi_pos)
  qed
  also have "(2::real) ^ 53 * 2 powi e = 2 powi (53 + e)"
  proof -
    have "(2::real) powi 53 = 2 ^ 53" by (simp only: power_int_numeral)
    then show ?thesis by (simp only: powi_add)
  qed
  finally have "b < 53 + e" by (rule powi_less_D)
  then show k: "0 \<le> e + 52 - b" by simp
  have 1: "?x * 2 powi (52 - b) = of_int m * (2 powi e * 2 powi (52 - b))" by (simp only: mult.assoc)
  have 2: "2 powi e * 2 powi (52 - b) = (2::real) powi (e + (52 - b))" by (simp only: powi_add)
  have 3: "e + (52 - b) = e + 52 - b" by simp
  have 4: "(2::real) powi (e + 52 - b) = of_int (2 ^ nat (e + 52 - b))"
    by (rule powi_nonneg_int [OF k])
  show "?x * 2 powi (52 - b) = of_int (m * 2 ^ nat (e + 52 - b))"
    unfolding 1 2 3 4 by (simp only: of_int_mult)
qed

lemma round_float64_exact:
  assumes "0 < m" "m < 2 ^ 53"
  shows "round_float64 (of_int m * 2 powi e) = of_int m * 2 powi e"
proof -
  let ?x = "real_of_int m * 2 powi e"
  define b where "b = binade ?x"
  have x: "?x \<noteq> 0" using assms(1) by simp
  have g: "?x * 2 powi (52 - b) = of_int (m * 2 ^ nat (e + 52 - b))"
    by (rule on_grid(2) [OF assms]) (simp add: b_def)
  have "round_float64 ?x = of_int (round_half_even (?x * 2 powi (52 - b))) * 2 powi (b - 52)"
    unfolding b_def by (rule round_float64_nonzero [OF x])
  also have "\<dots> = ?x * 2 powi (52 - b) * 2 powi (b - 52)"
    unfolding g by (simp only: round_half_even_of_int)
  also have "\<dots> = ?x * (2 powi (52 - b) * 2 powi (b - 52))" by (simp only: mult.assoc)
  also have "2 powi (52 - b) * 2 powi (b - 52) = (2::real) powi ((52 - b) + (b - 52))"
    by (simp only: powi_add)
  also have "(52 - b) + (b - 52) = 0" by simp
  finally show ?thesis by simp
qed

lemma round_float64_lower:
  assumes m: "0 < m" "m < 2 ^ 53" and le: "of_int m * 2 powi e \<le> x"
  shows "of_int m * 2 powi e \<le> round_float64 x"
proof -
  let ?r = "real_of_int m * 2 powi e"
  have r: "0 < ?r" using m(1) by simp
  then have x: "0 < x" using le by linarith
  have rb: "2 powi binade ?r \<le> ?r" "?r < 2 powi (binade ?r + 1)"
    by (rule binade_bounds_pos [OF r])+
  have xb: "2 powi binade x \<le> x" "x < 2 powi (binade x + 1)"
    by (rule binade_bounds_pos [OF x])+
  have "2 powi binade ?r < (2::real) powi (binade x + 1)"
    using rb(1) le xb(2) by linarith
  then have "binade ?r < binade x + 1" by (rule powi_less_D)
  then consider "binade ?r = binade x" | "binade ?r + 1 \<le> binade x" by linarith
  then show ?thesis
  proof cases
    case 1
    let ?s = "(2::real) powi (52 - binade x)"
    have g: "?r * ?s = of_int (m * 2 ^ nat (e + 52 - binade x))"
      by (rule on_grid(2) [OF m 1])
    have "?r * ?s \<le> x * ?s" using le by (simp only: mult_le_cancel_right_pos powi_pos)
    then have "m * 2 ^ nat (e + 52 - binade x) \<le> round_half_even (x * ?s)"
      unfolding g by (rule round_half_even_ge)
    then have "real_of_int (m * 2 ^ nat (e + 52 - binade x)) \<le> of_int (round_half_even (x * ?s))"
      by (simp only: of_int_le_iff)
    then have "?r * ?s \<le> of_int (round_half_even (x * ?s))" unfolding g .
    then have "?r * ?s * 2 powi (binade x - 52) \<le>
        of_int (round_half_even (x * ?s)) * 2 powi (binade x - 52)"
      by (simp only: mult_le_cancel_right_pos powi_pos)
    moreover have "?r * ?s * 2 powi (binade x - 52) = ?r"
    proof -
      have "?r * ?s * 2 powi (binade x - 52) = ?r * (?s * 2 powi (binade x - 52))"
        by (simp only: mult.assoc)
      also have "?s * 2 powi (binade x - 52) = (2::real) powi ((52 - binade x) + (binade x - 52))"
        by (simp only: powi_add)
      also have "(52 - binade x) + (binade x - 52) = 0" by simp
      finally show ?thesis by simp
    qed
    moreover have "round_float64 x = of_int (round_half_even (x * ?s)) * 2 powi (binade x - 52)"
      by (rule round_float64_nonzero) (use x in simp)
    ultimately show ?thesis by linarith
  next
    case 2
    then have "(2::real) powi (binade ?r + 1) \<le> 2 powi binade x"
      by (intro power_int_increasing) simp_all
    then show ?thesis using rb(2) round_float64_pos [OF x] by linarith
  qed
qed

lemma round_float64_le_next_binade:
  assumes "0 < x"
  shows "round_float64 x \<le> 2 powi (binade x + 1)"
proof -
  let ?s = "(2::real) powi (52 - binade x)"
  have "x * ?s \<le> of_int (2 ^ 53)" using scaled_bounds(2) [of x] assms by simp
  then have "round_half_even (x * ?s) \<le> 2 ^ 53" by (rule round_half_even_le)
  then have "of_int (round_half_even (x * ?s)) \<le> (2::real) ^ 53"
    by (metis of_int_le_iff of_int_numeral of_int_power)
  then have "of_int (round_half_even (x * ?s)) * 2 powi (binade x - 52) \<le>
      (2::real) ^ 53 * 2 powi (binade x - 52)"
    by (simp only: mult_le_cancel_right_pos powi_pos)
  moreover have "(2::real) ^ 53 * 2 powi (binade x - 52) = 2 powi (binade x + 1)"
  proof -
    have "(2::real) powi 53 = 2 ^ 53" by (simp only: power_int_numeral)
    then have "(2::real) ^ 53 * 2 powi (binade x - 52) = 2 powi (53 + (binade x - 52))"
      by (simp only: powi_add)
    moreover have "53 + (binade x - 52) = binade x + 1" by simp
    ultimately show ?thesis by (simp only:)
  qed
  moreover have "round_float64 x = of_int (round_half_even (x * ?s)) * 2 powi (binade x - 52)"
    by (rule round_float64_nonzero) (use assms in simp)
  ultimately show ?thesis by linarith
qed

lemma round_float64_upper:
  assumes m: "0 < m" "m < 2 ^ 53" and x: "0 < x" and le: "x \<le> of_int m * 2 powi e"
  shows "round_float64 x \<le> of_int m * 2 powi e"
proof -
  let ?r = "real_of_int m * 2 powi e"
  have r: "0 < ?r" using m(1) by simp
  have rb: "2 powi binade ?r \<le> ?r" "?r < 2 powi (binade ?r + 1)"
    by (rule binade_bounds_pos [OF r])+
  have xb: "2 powi binade x \<le> x" "x < 2 powi (binade x + 1)"
    by (rule binade_bounds_pos [OF x])+
  have "2 powi binade x < (2::real) powi (binade ?r + 1)"
    using xb(1) le rb(2) by linarith
  then have "binade x < binade ?r + 1" by (rule powi_less_D)
  then consider "binade ?r = binade x" | "binade x + 1 \<le> binade ?r" by linarith
  then show ?thesis
  proof cases
    case 1
    let ?s = "(2::real) powi (52 - binade x)"
    have g: "?r * ?s = of_int (m * 2 ^ nat (e + 52 - binade x))"
      by (rule on_grid(2) [OF m 1])
    have "x * ?s \<le> ?r * ?s" using le by (simp only: mult_le_cancel_right_pos powi_pos)
    then have "round_half_even (x * ?s) \<le> m * 2 ^ nat (e + 52 - binade x)"
      unfolding g by (rule round_half_even_le)
    then have "of_int (round_half_even (x * ?s)) \<le> real_of_int (m * 2 ^ nat (e + 52 - binade x))"
      by (simp only: of_int_le_iff)
    then have "of_int (round_half_even (x * ?s)) \<le> ?r * ?s" unfolding g .
    then have "of_int (round_half_even (x * ?s)) * 2 powi (binade x - 52) \<le>
        ?r * ?s * 2 powi (binade x - 52)"
      by (simp only: mult_le_cancel_right_pos powi_pos)
    moreover have "?r * ?s * 2 powi (binade x - 52) = ?r"
    proof -
      have "?r * ?s * 2 powi (binade x - 52) = ?r * (?s * 2 powi (binade x - 52))"
        by (simp only: mult.assoc)
      also have "?s * 2 powi (binade x - 52) = (2::real) powi ((52 - binade x) + (binade x - 52))"
        by (simp only: powi_add)
      also have "(52 - binade x) + (binade x - 52) = 0" by simp
      finally show ?thesis by simp
    qed
    moreover have "round_float64 x = of_int (round_half_even (x * ?s)) * 2 powi (binade x - 52)"
      by (rule round_float64_nonzero) (use x in simp)
    ultimately show ?thesis by linarith
  next
    case 2
    then have "(2::real) powi (binade x + 1) \<le> 2 powi binade ?r"
      by (intro power_int_increasing) simp_all
    then show ?thesis using rb(1) round_float64_le_next_binade [OF x] by linarith
  qed
qed

lemma round_half_even_minus: "round_half_even (- x) = - round_half_even x"
proof (cases "x = of_int \<lfloor>x\<rfloor>")
  case True
  then obtain k where "x = of_int k" ..
  then show ?thesis
    by (simp add: round_half_even_def flip: of_int_minus)
next
  case False
  then have f: "\<lfloor>- x\<rfloor> = - \<lfloor>x\<rfloor> - 1"
    by (metis ceiling_altdef ceiling_def add_diff_cancel_right' minus_diff_eq minus_minus uminus_add_conv_diff)
  have e: "even (- \<lfloor>x\<rfloor> - 1) \<longleftrightarrow> odd \<lfloor>x\<rfloor>" by simp
  show ?thesis
    unfolding round_half_even_def Let_def f e
    by (auto simp: algebra_simps)
qed

lemma binade_minus [simp]: "binade (- x) = binade x"
  by (simp add: binade_def)

lemma round_float64_minus: "round_float64 (- x) = - round_float64 x"
  by (simp add: round_float64_def round_half_even_minus)

lemma float64_0_8_value: "float64_0_8 = 7205759403792794 / 9007199254740992"
proof -
  have "binade (4 / 5) = - 1" by (rule binade_eqI) (simp_all add: powi_eval)
  then show ?thesis
    by (simp add: float64_0_8_def round_float64_def round_half_even_def powi_eval)
qed

lemma exact_int: "0 < m \<Longrightarrow> m < 2 ^ 53 \<Longrightarrow> round_float64 (of_int m) = of_int m"
  using round_float64_exact [of m 0] by simp

lemma lower_int: "0 < m \<Longrightarrow> m < 2 ^ 53 \<Longrightarrow> of_int m \<le> x \<Longrightarrow> of_int m \<le> round_float64 x"
  using round_float64_lower [of m 0 x] by simp

lemma upper_pow: "0 < x \<Longrightarrow> x \<le> 2 ^ 63 \<Longrightarrow> round_float64 x \<le> 2 ^ 63"
  using round_float64_upper [of 1 x 63] by simp

lemma upper_7_60: "0 < x \<Longrightarrow> x \<le> 7 * 2 ^ 60 \<Longrightarrow> round_float64 x \<le> 7 * 2 ^ 60"
  using round_float64_upper [of 7 x 60] by simp

text \<open>The threshold of a positive total is the rounded product, truncated.\<close>

lemma threshold_pos:
  fixes total' :: int64
  assumes t: "0 < sint total'"
  defines "y \<equiv> f64_mul (float64_of_int total') float64_0_8"
  shows "0 < y" and "y \<le> 7 * 2 ^ 60" and "sint (threshold_of total') = \<lfloor>y\<rfloor>"
proof -
  let ?t = "real_of_int (sint total')"
  have t63: "?t \<le> 2 ^ 63"
  proof -
    have "sint total' < 2 ^ 63" using sint_lt [of total'] by simp
    then have "sint total' \<le> 2 ^ 63" by simp
    then show ?thesis by (metis of_int_le_iff of_int_numeral of_int_power)
  qed
  have tp: "0 < ?t" using t by (simp del: of_int_sint)
  have x: "0 < float64_of_int total'" "float64_of_int total' \<le> 2 ^ 63"
    unfolding float64_of_int_def
    using round_float64_sign(1) [OF tp] upper_pow [OF tp t63] by simp_all
  have p: "0 < float64_of_int total' * float64_0_8"
    "float64_of_int total' * float64_0_8 \<le> 7 * 2 ^ 60"
    using x unfolding float64_0_8_value by simp_all
  show y: "0 < y" "y \<le> 7 * 2 ^ 60"
    unfolding y_def f64_mul_def
    using round_float64_sign(1) [OF p(1)] upper_7_60 [OF p] by simp_all
  have "0 \<le> \<lfloor>y\<rfloor>" using y(1) by simp
  moreover have "\<lfloor>y\<rfloor> < 2 ^ 63"
  proof -
    have "y < 2 ^ 63" using y(2) by simp
    then show ?thesis by (simp add: floor_less_iff)
  qed
  ultimately have "sint (word_of_int \<lfloor>y\<rfloor> :: int64) = \<lfloor>y\<rfloor>"
    by (simp add: sint_sbintrunc' signed_take_bit_int_eq_self)
  then show "sint (threshold_of total') = \<lfloor>y\<rfloor>"
    unfolding threshold_of_def int_of_float64_def y_def [symmetric] using y(1) by simp
qed

lemma threshold_nonpos:
  fixes total' :: int64
  assumes t: "sint total' \<le> 0"
  shows "sint (threshold_of total') \<le> 0"
proof (cases "sint total' = 0")
  case True
  then show ?thesis
    by (simp add: threshold_of_def int_of_float64_def f64_mul_def float64_of_int_def
        round_float64_sign(3))
next
  case False
  let ?t = "real_of_int (sint total')"
  let ?x = "float64_of_int total'"
  let ?y = "f64_mul ?x float64_0_8"
  have tn: "0 < - ?t" using t False by (simp del: of_int_sint)
  have t63: "- ?t \<le> 2 ^ 63"
  proof -
    have "- (2 ^ 63) \<le> sint total'" using sint_ge [of total'] by simp
    then have "- sint total' \<le> 2 ^ 63" by simp
    then have "real_of_int (- sint total') \<le> 2 ^ 63"
      by (metis of_int_le_iff of_int_numeral of_int_power)
    then show ?thesis by simp
  qed
  have xm: "?x = - round_float64 (- ?t)"
    unfolding float64_of_int_def using round_float64_minus [of "- ?t"] by simp
  have x: "?x < 0" "- (2 ^ 63) \<le> ?x"
    unfolding xm using round_float64_sign(1) [OF tn] upper_pow [OF tn t63] by simp_all
  have p: "0 < - (?x * float64_0_8)" "- (?x * float64_0_8) \<le> 7 * 2 ^ 60"
    using x unfolding float64_0_8_value by simp_all
  have ym: "?y = - round_float64 (- (?x * float64_0_8))"
    unfolding f64_mul_def using round_float64_minus [of "- (?x * float64_0_8)"] by simp
  have y: "?y < 0" "- (7 * 2 ^ 60) \<le> ?y"
    unfolding ym using round_float64_sign(1) [OF p(1)] upper_7_60 [OF p] by simp_all
  have "\<lceil>?y\<rceil> \<le> 0" using y(1) by (simp add: ceiling_le_iff)
  moreover have "- (2 ^ 63) \<le> \<lceil>?y\<rceil>"
  proof -
    have "real_of_int (- (2 ^ 63)) \<le> ?y" using y(2) by simp
    then show ?thesis by (simp only: le_ceiling_iff)
  qed
  ultimately have "sint (word_of_int \<lceil>?y\<rceil> :: int64) = \<lceil>?y\<rceil>" "\<lceil>?y\<rceil> \<le> 0"
    by (simp_all add: sint_sbintrunc' signed_take_bit_int_eq_self)
  then show ?thesis
    unfolding threshold_of_def int_of_float64_def using y(1) by simp
qed

text \<open>
  The comparison with the threshold, in exact arithmetic: a candidate up to 50000 is
  below \<^verbatim>\<open>int(float64(total) * 0.8)\<close> exactly when \<open>5 * (c + 1) \<le> 4 * total\<close>.
\<close>

lemma threshold_exact:
  fixes total' size :: int64
  assumes k: "0 \<le> sint size" "sint size \<le> 50000"
  shows "size <s threshold_of total' \<longleftrightarrow> 5 * (sint size + 1) \<le> 4 * sint total'"
proof (cases "0 < sint total'")
  case False
  then have "sint (threshold_of total') \<le> 0" by (intro threshold_nonpos) simp
  then show ?thesis using False k by (simp add: word_sless_alt)
next
  case True
  let ?k = "sint size"
  let ?t = "real_of_int (sint total')"
  let ?x = "float64_of_int total'"
  let ?y = "f64_mul ?x float64_0_8"
  have thr: "sint (threshold_of total') = \<lfloor>?y\<rfloor>" by (rule threshold_pos(3) [OF True])
  have tp: "0 < ?t" using True by (simp del: of_int_sint)
  show ?thesis
  proof
    assume "5 * (?k + 1) \<le> 4 * sint total'"
    then have "real_of_int (5 * (?k + 1)) \<le> real_of_int (4 * sint total')"
      by (simp only: of_int_le_iff)
    then have "real_of_int (5 * (?k + 1)) * 2 powi (- 2) \<le> ?t"
      by (simp add: powi_eval)
    moreover have "0 < 5 * (?k + 1)" "5 * (?k + 1) < 2 ^ 53" using k by simp_all
    ultimately have "real_of_int (5 * (?k + 1)) * 2 powi (- 2) \<le> ?x"
      unfolding float64_of_int_def by (intro round_float64_lower)
    moreover have "0 \<le> real_of_int ?k" using k(1) by (simp del: of_int_sint)
    ultimately have "real_of_int (?k + 1) \<le> ?x * float64_0_8"
      unfolding float64_0_8_value by (simp add: powi_eval)
    moreover have "0 < ?k + 1" "?k + 1 < 2 ^ 53" using k by simp_all
    ultimately have "real_of_int (?k + 1) \<le> ?y"
      unfolding f64_mul_def by (intro lower_int)
    then have "?k + 1 \<le> \<lfloor>?y\<rfloor>" by (simp only: le_floor_iff)
    then show "size <s threshold_of total'"
      unfolding word_sless_alt thr by simp
  next
    assume "size <s threshold_of total'"
    then have lt: "?k + 1 \<le> \<lfloor>?y\<rfloor>" unfolding word_sless_alt thr by simp
    show "5 * (?k + 1) \<le> 4 * sint total'"
    proof (rule ccontr)
      assume "\<not> 5 * (?k + 1) \<le> 4 * sint total'"
      then have small: "4 * sint total' \<le> 5 * ?k + 4" by simp
      then have "sint total' < 2 ^ 53" using k by simp
      then have xt: "?x = ?t"
        unfolding float64_of_int_def by (intro exact_int True)
      have "real_of_int (4 * sint total') \<le> real_of_int (5 * ?k + 4)"
        using small by (simp only: of_int_le_iff)
      then have "4 * ?t \<le> 5 * real_of_int ?k + 4" by simp
      moreover have "real_of_int ?k \<le> 50000" using k(2) by (simp del: of_int_sint)
      ultimately have "?t * float64_0_8 \<le> real_of_int (8 * ?k + 7) * 2 powi (- 3)"
        unfolding float64_0_8_value by (simp add: powi_eval)
      moreover have "0 < ?t * float64_0_8" using tp unfolding float64_0_8_value by simp
      moreover have "0 < 8 * ?k + 7" "8 * ?k + 7 < 2 ^ 53" using k by simp_all
      ultimately have "?y \<le> real_of_int (8 * ?k + 7) * 2 powi (- 3)"
        unfolding f64_mul_def xt by (intro round_float64_upper)
      then have "?y < real_of_int (?k + 1)" by (simp add: powi_eval)
      then have "\<lfloor>?y\<rfloor> < ?k + 1" by (simp only: floor_less_iff)
      then show False using lt by simp
    qed
  qed
qed

section \<open>GetCollisionAnalysis\<close>

lemma GetCollisionAnalysis_loop_eq:
  "GetCollisionAnalysis_loop math_Exp total' threshold testSizes scenarios =
     scenarios @ map (scenario_of math_Exp total') (filter (\<lambda>size'. size' <s threshold) testSizes)"
  by (induction testSizes arbitrary: scenarios) (simp_all add: Let_def scenario_of_def)

lemma CalculateCombinations_returns:
  "\<exists>total'. CalculateCombinations components suffixRange = Inr total'"
proof (cases "components <s 1 \<or> 5 <s components")
  case True
  then show ?thesis by (auto simp: CalculateCombinations_def)
next
  case False
  then show ?thesis using CalculateCombinations_closed_form [OF False] by blast
qed

lemma testSizes_filter:
  "filter (\<lambda>size'. size' <s threshold_of total')
     [50, 100, 200, 500, 1000, 2000, 5000, 10000, 20000, 50000] =
   filter (\<lambda>size'. 5 * (sint size' + 1) \<le> 4 * sint total')
     [50, 100, 200, 500, 1000, 2000, 5000, 10000, 20000, 50000]"
proof (rule filter_cong [OF refl])
  fix x :: int64
  assume "x \<in> set [50, 100, 200, 500, 1000, 2000, 5000, 10000, 20000, 50000]"
  then have "0 \<le> sint x" "sint x \<le> 50000" by auto
  then show "x <s threshold_of total' \<longleftrightarrow> 5 * (sint x + 1) \<le> 4 * sint total'"
    by (rule threshold_exact)
qed

lemma GetCollisionAnalysis_eq:
  assumes "CalculateCombinations components (if suffixRange <s 1 then 1 else suffixRange) = Inr total'"
  shows "GetCollisionAnalysis math_Exp components suffixRange =
       Inr \<lparr> TotalCombinations = total',
             Scenarios =
               map (scenario_of math_Exp total')
                 (filter (\<lambda>size'. 5 * (sint size' + 1) \<le> 4 * sint total')
                    [50, 100, 200, 500, 1000, 2000, 5000, 10000, 20000, 50000]) \<rparr>"
proof -
  have "GetCollisionAnalysis math_Exp components suffixRange =
       Inr \<lparr> TotalCombinations = total',
             Scenarios =
               map (scenario_of math_Exp total')
                 (filter (\<lambda>size'. size' <s threshold_of total')
                    [50, 100, 200, 500, 1000, 2000, 5000, 10000, 20000, 50000]) \<rparr>"
    unfolding GetCollisionAnalysis_def Let_def assms threshold_of_def GetCollisionAnalysis_loop_eq
    by simp
  then show ?thesis unfolding testSizes_filter .
qed

text \<open>
  Two percentages, and the analysis for two components without a suffix: of 6264
  combinations, the candidates up to 5000.
\<close>

lemma Sprintf_2f_percent_example:
  "Sprintf_2f_percent (218 / 10) = ''21.80%''" "Sprintf_2f_percent (1 / 8) = ''0.12%''"
  by (simp_all add: Sprintf_2f_percent_def round_half_even_def decimal.simps digit_def)

lemma GetCollisionAnalysis_example:
  "GetCollisionAnalysis math_Exp 2 1 =
     Inr \<lparr> TotalCombinations = 6264,
           Scenarios = map (scenario_of math_Exp 6264) [50, 100, 200, 500, 1000, 2000, 5000] \<rparr>"
proof -
  have s: "\<not> ((1 :: int64) <s 1)" by (simp add: word_sless_alt)
  have c: "CalculateCombinations 2 (if (1 :: int64) <s 1 then 1 else 1) = Inr 6264"
    using CalculateCombinations_closed_form [OF valid_2, of 1] s
    by (simp add: dict_lengths)
  show ?thesis
    using GetCollisionAnalysis_eq [OF c, of math_Exp] by simp
qed

text \<open>
  Claim C2, amended. For all components and ranges, \<^verbatim>\<open>GetCollisionAnalysis\<close> goes through
  the candidate counts 50, 100, 200, 500, 1000, 2000, 5000, 10000, 20000, 50000 in this
  order, with \<open>total\<close> the result of \<^verbatim>\<open>CalculateCombinations\<close> for the components and the
  range (1 for a range below 1). It includes a candidate \<open>c\<close> exactly when \<open>c\<close> is below
  the threshold \<open>total * 0.8\<close> truncated to an integer, that is exactly when
  \<open>c + 1 \<le> total * 0.8\<close>, or \<open>5 * (c + 1) \<le> 4 * total\<close>. Each scenario carries the
  probability \<^verbatim>\<open>CalculateCollisionProbability(total, c)\<close> and, as its percentage, that
  probability times 100 with two decimal places and a percent sign.
\<close>

theorem GetCollisionAnalysis_scenarios:
  fixes math_Exp :: "float64 \<Rightarrow> float64" and components suffixRange :: int64
  shows
  "\<exists>total'.
     CalculateCombinations components (if suffixRange <s 1 then 1 else suffixRange) = Inr total' \<and>
     GetCollisionAnalysis math_Exp components suffixRange =
       Inr \<lparr> TotalCombinations = total',
             Scenarios =
               map (\<lambda>size'.
                      \<lparr> IDs = size',
                        Probability = CalculateCollisionProbability math_Exp total' size',
                        Percentage =
                          Sprintf_2f_percent
                            (f64_mul (CalculateCollisionProbability math_Exp total' size') 100) \<rparr>)
                 (filter (\<lambda>size'. 5 * (sint size' + 1) \<le> 4 * sint total')
                    [50, 100, 200, 500, 1000, 2000, 5000, 10000, 20000, 50000]) \<rparr>"
proof -
  obtain total' where
    t: "CalculateCombinations components (if suffixRange <s 1 then 1 else suffixRange) = Inr total'"
    using CalculateCombinations_returns by blast
  show ?thesis
    using t GetCollisionAnalysis_eq [OF t, of math_Exp]
    by (auto simp: scenario_of_def [abs_def])
qed

text \<open>
  The claim as stated, with the real-valued threshold, fails where \<open>total * 0.8\<close> lies
  strictly between a candidate and the next integer. One component and the range
  5088756985850910805 give, by the wrap-around of the product, the total 1251 and the
  threshold 1000 (from 1000.8): the candidate 1000 is below 1000.8 and is left out.
\<close>

theorem GetCollisionAnalysis_threshold_counterexample:
  "\<not> ((5088756985850910805 :: int64) <s 1) \<and>
   GetCollisionAnalysis exp 1 5088756985850910805 =
     Inr \<lparr> TotalCombinations = 1251,
           Scenarios = map (scenario_of exp 1251) [50, 100, 200, 500] \<rparr> \<and>
   real_of_int (sint (1000 :: int64)) < real_of_int (sint (1251 :: int64)) * (8 / 10)"
proof -
  have s: "\<not> ((5088756985850910805 :: int64) <s 1)" by (simp add: word_sless_alt)
  have c: "CalculateCombinations 1
      (if (5088756985850910805 :: int64) <s 1 then 1 else 5088756985850910805) = Inr 1251"
    using CalculateCombinations_closed_form [OF valid_1, of 5088756985850910805] s
    by (simp add: dict_lengths)
  show ?thesis
    using s GetCollisionAnalysis_eq [OF c, of exp] by simp
qed

section \<open>CalculateCollisionProbability\<close>

lemma square_no_wrap:
  fixes g :: int64
  assumes "0 \<le> sint g" "sint g < 3037000500"
  shows "sint (g * g) = (sint g)\<^sup>2"
proof -
  have "sint g * sint g \<le> 3037000499 * 3037000499"
    using assms by (intro mult_mono) simp_all
  then have "sint g * sint g < 2 ^ 63" by simp
  moreover have "- (2 ^ 63) \<le> sint g * sint g"
  proof -
    have "- (2 ^ 63) \<le> (0::int)" by simp
    also have "0 \<le> sint g * sint g" by simp
    finally show ?thesis .
  qed
  ultimately show ?thesis
    by (simp add: sint_word_ariths signed_take_bit_int_eq_self power2_eq_square)
qed

lemma round_float64_pow2: "round_float64 (2 powi e) = 2 powi e"
  using round_float64_exact [of 1 e] by simp

lemma round_float64_between_pow2:
  assumes "2 powi a \<le> x" "x \<le> 2 powi b"
  shows "2 powi a \<le> round_float64 x" "round_float64 x \<le> 2 powi b"
proof -
  have x: "0 < x" using assms(1) powi_pos [of a] by linarith
  show "2 powi a \<le> round_float64 x"
    using round_float64_lower [of 1 a x] assms(1) by simp
  show "round_float64 x \<le> 2 powi b"
    using round_float64_upper [of 1 x b] x assms(2) by simp
qed

lemma float64_of_int_pow2:
  fixes w :: int64
  assumes "sint w = 2 ^ n"
  shows "float64_of_int w = 2 ^ n"
proof -
  have "round_float64 (2 powi int n) = 2 powi int n" by (rule round_float64_pow2)
  then have "round_float64 (2 ^ n) = 2 ^ n" by (simp only: power_int_of_nat)
  then show ?thesis unfolding float64_of_int_def assms by simp
qed

lemma round_float64_pow2_nat: "round_float64 (2 ^ n) = 2 ^ n"
  using round_float64_pow2 [of "int n"] by (simp only: power_int_of_nat)

lemma exponent_at_2_32:
  "f64_div (- float64_of_int (4294967296 * 4294967296))
           (f64_mul 2 (float64_of_int 8589934592)) = 0"
proof -
  have w: "(4294967296 :: int64) * 4294967296 = 0" by simp
  show ?thesis
    unfolding w by (simp add: float64_of_int_def f64_div_def round_float64_sign(3))
qed

lemma spec_exponent_at_2_32:
  "f64_div (- round_float64 ((real_of_int (sint (4294967296 :: int64)))\<^sup>2))
           (f64_mul 2 (float64_of_int 8589934592)) = - (2 ^ 30)"
proof -
  have a: "(real_of_int (sint (4294967296 :: int64)))\<^sup>2 = 2 ^ 64" by simp
  have b: "float64_of_int 8589934592 = 2 ^ 33"
    by (rule float64_of_int_pow2) simp
  have c: "f64_mul 2 (2 ^ 33) = 2 ^ 34"
    unfolding f64_mul_def using round_float64_pow2_nat [of 34] by simp
  have d: "- (2 ^ 64) / 2 ^ 34 = - ((2::real) ^ 30)" by simp
  show ?thesis
    unfolding a b c round_float64_pow2_nat f64_div_def d round_float64_minus
    by (simp only: round_float64_pow2_nat)
qed

lemma exponent_at_3:
  "f64_div (- float64_of_int (3 * 3)) (f64_mul 2 (float64_of_int 8589934592)) =
     - (9 * 2 powi (- 34))"
proof -
  have a: "float64_of_int (3 * 3) = 9"
    unfolding float64_of_int_def using round_float64_exact [of 9 0] by simp
  have b: "float64_of_int 8589934592 = 2 ^ 33"
    by (rule float64_of_int_pow2) simp
  have c: "f64_mul 2 (2 ^ 33) = 2 ^ 34"
    unfolding f64_mul_def using round_float64_pow2_nat [of 34] by simp
  have d: "- 9 / 2 ^ 34 = - (real_of_int 9 * 2 powi (- 34))" by (simp add: powi_eval)
  have e: "round_float64 (real_of_int 9 * 2 powi (- 34)) = real_of_int 9 * 2 powi (- 34)"
    by (rule round_float64_exact) simp_all
  show ?thesis
    unfolding a b c f64_div_def d round_float64_minus e by simp
qed

text \<open>
  Claim C4. \<^verbatim>\<open>CalculateCollisionProbability(T, g)\<close> is 1 when \<open>g \<ge> T\<close>, and 0 when
  \<open>g \<le> 1\<close> and \<open>g < T\<close>. Otherwise, for \<open>g\<close> below 3037000500, it is the formula of
  the specification, \<open>1 - exp(- g\<^sup>2 / (2 * T))\<close> evaluated in \<^verbatim>\<open>float64\<close>. From 3037000500
  on, the square is taken in \<^verbatim>\<open>int\<close> and wraps before it is converted: for \<open>g = 2 ^ 32\<close>
  and \<open>T = 2 ^ 33\<close> the product is 0 and the result is \<open>1 - exp(0)\<close>, that is 0, where
  the formula gives \<open>1 - exp(- 2 ^ 30)\<close>, a positive number (for every \<^verbatim>\<open>math.Exp\<close> with
  \<open>exp(0) = 1\<close> and \<open>exp(- 2 ^ 30) < 1\<close>).
\<close>

theorem CalculateCollisionProbability_cases:
  fixes T g :: int64
  shows
  "(T \<le>s g \<longrightarrow> CalculateCollisionProbability math_Exp T g = 1) \<and>
   (\<not> T \<le>s g \<and> g \<le>s 1 \<longrightarrow> CalculateCollisionProbability math_Exp T g = 0) \<and>
   (sint g < 3037000500 \<longrightarrow>
      CalculateCollisionProbability math_Exp T g = spec_CollisionProbability math_Exp T g) \<and>
   (math_Exp 0 = 1 \<and> math_Exp (- (2 ^ 30)) < 1 \<longrightarrow>
      CalculateCollisionProbability math_Exp 8589934592 4294967296 = 0 \<and>
      0 < spec_CollisionProbability math_Exp 8589934592 4294967296)"
proof (intro conjI impI)
  assume "T \<le>s g"
  then show "CalculateCollisionProbability math_Exp T g = 1"
    by (simp add: CalculateCollisionProbability_def)
next
  assume "\<not> T \<le>s g \<and> g \<le>s 1"
  then show "CalculateCollisionProbability math_Exp T g = 0"
    by (simp add: CalculateCollisionProbability_def)
next
  assume a: "sint g < 3037000500"
  show "CalculateCollisionProbability math_Exp T g = spec_CollisionProbability math_Exp T g"
  proof (cases "T \<le>s g \<or> g \<le>s 1")
    case True
    then show ?thesis
      by (auto simp: CalculateCollisionProbability_def spec_CollisionProbability_def)
  next
    case False
    then have "0 \<le> sint g" by (simp add: word_sle_eq)
    then have "sint (g * g) = (sint g)\<^sup>2" using a by (intro square_no_wrap) simp_all
    then have "float64_of_int (g * g) = round_float64 ((real_of_int (sint g))\<^sup>2)"
      by (simp only: float64_of_int_def of_int_power)
    then show ?thesis
      using False
      by (simp add: CalculateCollisionProbability_def spec_CollisionProbability_def Let_def)
  qed
next
  assume e: "math_Exp 0 = 1 \<and> math_Exp (- (2 ^ 30)) < 1"
  have c: "\<not> (8589934592 :: int64) \<le>s 4294967296" "\<not> (4294967296 :: int64) \<le>s 1"
    by (simp_all add: word_sle_eq)
  show "CalculateCollisionProbability math_Exp 8589934592 4294967296 = 0"
    unfolding CalculateCollisionProbability_def Let_def exponent_at_2_32
    using c e by (simp add: f64_sub_def round_float64_sign(3))
next
  assume e: "math_Exp 0 = 1 \<and> math_Exp (- (2 ^ 30)) < 1"
  have c: "\<not> (8589934592 :: int64) \<le>s 4294967296" "\<not> (4294967296 :: int64) \<le>s 1"
    by (simp_all add: word_sle_eq)
  have "0 < round_float64 (1 - math_Exp (- (2 ^ 30)))"
    by (rule round_float64_sign(1)) (use e in simp)
  then show "0 < spec_CollisionProbability math_Exp 8589934592 4294967296"
    unfolding spec_CollisionProbability_def spec_exponent_at_2_32
    using c by (simp add: f64_sub_def)
qed

theorem CalculateCollisionProbability_cases_witness:
  "CalculateCollisionProbability exp 100 100 = 1 \<and>
   CalculateCollisionProbability exp 1000 1 = 0 \<and>
   CalculateCollisionProbability exp 5304 100 = spec_CollisionProbability exp 5304 100 \<and>
   CalculateCollisionProbability exp 8589934592 4294967296 = 0 \<and>
   0 < spec_CollisionProbability exp 8589934592 4294967296"
  using CalculateCollisionProbability_cases [of 100 100 exp]
    CalculateCollisionProbability_cases [of 1000 1 exp]
    CalculateCollisionProbability_cases [of 5304 100 exp]
  by (simp add: word_sle_eq)

lemma binade_mono_pos:
  assumes "0 < x" "x \<le> y"
  shows "binade x \<le> binade y"
proof -
  have y: "0 < y" using assms by linarith
  have "2 powi binade x \<le> x" by (rule binade_bounds_pos(1) [OF assms(1)])
  moreover have "y < 2 powi (binade y + 1)" by (rule binade_bounds_pos(2) [OF y])
  ultimately have "(2::real) powi binade x < 2 powi (binade y + 1)" using assms(2) by linarith
  then have "binade x < binade y + 1" by (rule powi_less_D)
  then show ?thesis by simp
qed

lemma round_float64_mono_pos:
  assumes "0 < x" "x \<le> y"
  shows "round_float64 x \<le> round_float64 y"
proof (cases "binade x = binade y")
  case True
  let ?s = "(2::real) powi (52 - binade y)"
  have y: "0 < y" using assms by linarith
  have "x * ?s \<le> y * ?s" using assms(2) by (simp only: mult_le_cancel_right_pos powi_pos)
  then have "round_half_even (x * ?s) \<le> round_half_even (y * ?s)" by (rule round_half_even_mono)
  then have "real_of_int (round_half_even (x * ?s)) \<le> real_of_int (round_half_even (y * ?s))"
    by (simp only: of_int_le_iff)
  then have "real_of_int (round_half_even (x * ?s)) * 2 powi (binade y - 52) \<le>
      real_of_int (round_half_even (y * ?s)) * 2 powi (binade y - 52)"
    by (simp only: mult_le_cancel_right_pos powi_pos)
  moreover have "round_float64 x =
      real_of_int (round_half_even (x * ?s)) * 2 powi (binade y - 52)"
    unfolding True [symmetric] by (rule round_float64_nonzero) (use assms(1) in simp)
  moreover have "round_float64 y =
      real_of_int (round_half_even (y * ?s)) * 2 powi (binade y - 52)"
    by (rule round_float64_nonzero) (use y in simp)
  ultimately show ?thesis by linarith
next
  case False
  have y: "0 < y" using assms by linarith
  have "binade x \<le> binade y" by (rule binade_mono_pos [OF assms])
  then have "binade x + 1 \<le> binade y" using False by simp
  then have "(2::real) powi (binade x + 1) \<le> 2 powi binade y"
    by (intro power_int_increasing) simp_all
  then show ?thesis
    using round_float64_le_next_binade [OF assms(1)] round_float64_pos [OF y] by linarith
qed

lemma round_float64_mono:
  assumes "x \<le> y"
  shows "round_float64 x \<le> round_float64 y"
proof -
  consider "0 < x" | "x \<le> 0" "0 \<le> y" | "y < 0" by linarith
  then show ?thesis
  proof cases
    case 1
    then show ?thesis using assms by (rule round_float64_mono_pos)
  next
    case 2
    have "round_float64 x \<le> 0"
      using 2(1) round_float64_sign(2) [of x] round_float64_sign(3) by (cases "x = 0") auto
    moreover have "0 \<le> round_float64 y"
      using 2(2) round_float64_sign(1) [of y] round_float64_sign(3) by (cases "y = 0") auto
    ultimately show ?thesis by linarith
  next
    case 3
    then have "0 < - y" "- y \<le> - x" using assms by simp_all
    then have "round_float64 (- y) \<le> round_float64 (- x)" by (rule round_float64_mono_pos)
    then show ?thesis by (simp add: round_float64_minus)
  qed
qed

lemma round_float64_0 [simp]: "round_float64 0 = 0"
  by (rule round_float64_sign(3))

lemma round_float64_1 [simp]: "round_float64 1 = 1"
  using round_float64_exact [of 1 0] by simp

lemma exponent_nonpos:
  fixes T g :: int64
  assumes "0 < sint T" and that: "0 \<le> sint (g * g)"
  shows "f64_div (- float64_of_int (g * g)) (f64_mul 2 (float64_of_int T)) \<le> 0"
proof -
  have "0 \<le> float64_of_int (g * g)"
    unfolding float64_of_int_def
    using round_float64_mono [of 0 "real_of_int (sint (g * g))"] that by (simp del: of_int_sint)
  moreover have "0 < f64_mul 2 (float64_of_int T)"
  proof -
    have "0 < float64_of_int T"
      unfolding float64_of_int_def by (rule round_float64_sign(1)) (use assms in \<open>simp del: of_int_sint\<close>)
    then show ?thesis unfolding f64_mul_def by (intro round_float64_sign(1)) simp
  qed
  ultimately have "- float64_of_int (g * g) / f64_mul 2 (float64_of_int T) \<le> 0"
    by (simp add: divide_nonpos_pos)
  then show ?thesis
    unfolding f64_div_def using round_float64_mono [of _ 0] by simp
qed

text \<open>
  Below the overflow of the square the result is within [0, 1] and does not decrease with
  \<open>g\<close>, for every \<^verbatim>\<open>math.Exp\<close> that is within [0, 1] and does not decrease on the
  arguments up to 0.
\<close>

lemma CalculateCollisionProbability_below_overflow:
  fixes T g g' :: int64
  assumes range: "\<forall>x. x \<le> 0 \<longrightarrow> 0 \<le> math_Exp x \<and> math_Exp x \<le> 1"
    and mono: "\<forall>x y. x \<le> y \<and> y \<le> 0 \<longrightarrow> math_Exp x \<le> math_Exp y"
  shows "sint g < 3037000500 \<Longrightarrow>
           0 \<le> CalculateCollisionProbability math_Exp T g \<and>
           CalculateCollisionProbability math_Exp T g \<le> 1"
    and "g \<le>s g' \<Longrightarrow> sint g' < 3037000500 \<Longrightarrow>
           CalculateCollisionProbability math_Exp T g \<le> CalculateCollisionProbability math_Exp T g'"
proof -
  have unit: "0 \<le> CalculateCollisionProbability math_Exp T h \<and>
           CalculateCollisionProbability math_Exp T h \<le> 1"
    if h: "sint h < 3037000500" for h
  proof (cases "T \<le>s h \<or> h \<le>s 1")
    case True
    then show ?thesis by (auto simp: CalculateCollisionProbability_def)
  next
    case False
    then have h1: "1 < sint h" and Th: "sint h < sint T" by (simp_all add: word_sle_eq)
    have sq: "sint (h * h) = (sint h)\<^sup>2" using h h1 by (intro square_no_wrap) simp_all
    let ?e = "f64_div (- float64_of_int (h * h)) (f64_mul 2 (float64_of_int T))"
    have "?e \<le> 0" using Th h1 sq by (intro exponent_nonpos) simp_all
    then have "0 \<le> math_Exp ?e" "math_Exp ?e \<le> 1" using range by blast+
    then have "round_float64 0 \<le> round_float64 (1 - math_Exp ?e)"
      "round_float64 (1 - math_Exp ?e) \<le> round_float64 1"
      by (intro round_float64_mono; simp)+
    then show ?thesis
      using False by (simp add: CalculateCollisionProbability_def Let_def f64_sub_def)
  qed
  show "sint g < 3037000500 \<Longrightarrow>
           0 \<le> CalculateCollisionProbability math_Exp T g \<and>
           CalculateCollisionProbability math_Exp T g \<le> 1"
    by (rule unit)
  show "CalculateCollisionProbability math_Exp T g \<le> CalculateCollisionProbability math_Exp T g'"
    if le: "g \<le>s g'" and h: "sint g' < 3037000500"
  proof -
    have gg: "sint g \<le> sint g'" using le by (simp add: word_sle_eq)
    then have hg: "sint g < 3037000500" using h by simp
    consider "T \<le>s g'" | "\<not> T \<le>s g'" "g \<le>s 1" | "\<not> T \<le>s g'" "\<not> g \<le>s 1" by blast
    then show ?thesis
    proof cases
      case 1
      then show ?thesis using unit [OF hg] by (simp add: CalculateCollisionProbability_def)
    next
      case 2
      then have "\<not> T \<le>s g" using gg by (simp add: word_sle_eq)
      then have "CalculateCollisionProbability math_Exp T g = 0"
        using 2 by (simp add: CalculateCollisionProbability_def)
      then show ?thesis using unit [OF h] by simp
    next
      case 3
      then have a: "1 < sint g" "sint g' < sint T" "\<not> T \<le>s g" "\<not> g' \<le>s 1"
        using gg by (simp_all add: word_sle_eq)
      have sq: "sint (g * g) = (sint g)\<^sup>2" "sint (g' * g') = (sint g')\<^sup>2"
        using a(1) gg hg h by (simp_all add: square_no_wrap)
      have "(sint g)\<^sup>2 \<le> (sint g')\<^sup>2" using a(1) gg by (intro power_mono) simp_all
      then have "real_of_int (sint (g * g)) \<le> real_of_int (sint (g' * g'))"
        unfolding sq by (simp only: of_int_le_iff)
      then have n: "float64_of_int (g * g) \<le> float64_of_int (g' * g')"
        unfolding float64_of_int_def by (rule round_float64_mono)
      let ?d = "f64_mul 2 (float64_of_int T)"
      have d: "0 < ?d"
      proof -
        have "0 < sint T" using a(1) gg a(2) by simp
        then have "0 < float64_of_int T"
          unfolding float64_of_int_def by (intro round_float64_sign(1)) (simp del: of_int_sint)
        then show ?thesis unfolding f64_mul_def by (intro round_float64_sign(1)) simp
      qed
      let ?e = "f64_div (- float64_of_int (g * g)) ?d"
      let ?e' = "f64_div (- float64_of_int (g' * g')) ?d"
      have "- float64_of_int (g' * g') / ?d \<le> - float64_of_int (g * g) / ?d"
        using n d by (simp add: divide_right_mono)
      then have ee: "?e' \<le> ?e" unfolding f64_div_def by (rule round_float64_mono)
      have "?e \<le> 0" using a(1) gg a(2) sq by (intro exponent_nonpos) simp_all
      then have "math_Exp ?e' \<le> math_Exp ?e" using ee mono by blast
      then have "round_float64 (1 - math_Exp ?e) \<le> round_float64 (1 - math_Exp ?e')"
        by (intro round_float64_mono) simp
      then show ?thesis
        using a 3 by (simp add: CalculateCollisionProbability_def Let_def f64_sub_def)
    qed
  qed
qed

text \<open>
  Claim C9. The result is not always within [0, 1], and not monotone in \<open>g\<close> between 1
  and \<open>T\<close>. For \<open>T = 2 ^ 62\<close> and \<open>g = 3037000500\<close> the product \<open>g * g\<close> wraps to a
  negative \<^verbatim>\<open>int\<close>, the exponent lies between 1/2 and 1, and the result is negative (for
  every \<^verbatim>\<open>math.Exp\<close> that is above 1 on the arguments from 1/2 to 1). For
  \<open>T = 2 ^ 33\<close> the result at \<open>g = 2 ^ 32\<close>, where the product wraps to 0, is below the
  result at \<open>g = 3\<close> (for every \<^verbatim>\<open>math.Exp\<close> with \<open>exp(0) = 1\<close> and
  \<open>exp(- 9 / 2 ^ 34) < 1\<close>).
\<close>

theorem CalculateCollisionProbability_outside_unit_interval:
  "sint (3037000500 * 3037000500 :: int64) = - 9223372036709301616 \<and>
   (1 :: int64) <s 3037000500 \<and> (3037000500 :: int64) <s 4611686018427387904 \<and>
   ((\<forall>x. 1 / 2 \<le> x \<and> x \<le> 1 \<longrightarrow> 1 < math_Exp x) \<longrightarrow>
      CalculateCollisionProbability math_Exp 4611686018427387904 3037000500 < 0) \<and>
   (1 :: int64) <s 3 \<and> (3 :: int64) <s 4294967296 \<and> (4294967296 :: int64) <s 8589934592 \<and>
   (math_Exp 0 = 1 \<and> math_Exp (- (9 * 2 powi (- 34))) < 1 \<longrightarrow>
      CalculateCollisionProbability math_Exp 8589934592 4294967296 <
      CalculateCollisionProbability math_Exp 8589934592 3)"
proof -
  let ?T = "4611686018427387904 :: int64"
  let ?g = "3037000500 :: int64"
  have w: "sint (?g * ?g) = - 9223372036709301616" by simp
  have neg: "CalculateCollisionProbability math_Exp ?T ?g < 0"
    if ex: "\<forall>x. 1 / 2 \<le> x \<and> x \<le> 1 \<longrightarrow> 1 < math_Exp x"
  proof -
    have "- float64_of_int (?g * ?g) = round_float64 9223372036709301616"
      unfolding float64_of_int_def w using round_float64_minus [of 9223372036709301616] by simp
    moreover have "(2::real) powi 62 \<le> 9223372036709301616"
      "(9223372036709301616::real) \<le> 2 powi 63"
      by simp_all
    ultimately have n: "2 powi 62 \<le> - float64_of_int (?g * ?g)"
      "- float64_of_int (?g * ?g) \<le> 2 powi 63"
      using round_float64_between_pow2 [of 62 9223372036709301616 63] by simp_all
    have "float64_of_int ?T = 2 powi 62"
      unfolding float64_of_int_def using round_float64_pow2 [of 62] by simp
    then have d: "f64_mul 2 (float64_of_int ?T) = 2 powi 63"
      unfolding f64_mul_def using round_float64_pow2 [of 63] by simp
    let ?q = "- float64_of_int (?g * ?g) / f64_mul 2 (float64_of_int ?T)"
    have q: "2 powi (- 1) \<le> ?q" "?q \<le> 2 powi 0"
      unfolding d using n by (simp_all add: field_simps powi_eval)
    have e: "1 / 2 \<le> f64_div (- float64_of_int (?g * ?g)) (f64_mul 2 (float64_of_int ?T))"
      "f64_div (- float64_of_int (?g * ?g)) (f64_mul 2 (float64_of_int ?T)) \<le> 1"
      unfolding f64_div_def using round_float64_between_pow2 [OF q] by (simp_all add: powi_eval)
    then have "1 < math_Exp (f64_div (- float64_of_int (?g * ?g)) (f64_mul 2 (float64_of_int ?T)))"
      using ex by blast
    then have "f64_sub 1 (math_Exp (f64_div (- float64_of_int (?g * ?g)) (f64_mul 2 (float64_of_int ?T)))) < 0"
      unfolding f64_sub_def by (intro round_float64_sign(2)) simp
    moreover have "\<not> ?T \<le>s ?g" "\<not> ?g \<le>s 1" by (simp_all add: word_sle_eq)
    ultimately show ?thesis
      by (simp add: CalculateCollisionProbability_def Let_def)
  qed
  have mono: "CalculateCollisionProbability math_Exp 8589934592 4294967296 <
      CalculateCollisionProbability math_Exp 8589934592 3"
    if ex: "math_Exp 0 = 1 \<and> math_Exp (- (9 * 2 powi (- 34))) < 1"
  proof -
    have c: "\<not> (8589934592 :: int64) \<le>s 4294967296" "\<not> (4294967296 :: int64) \<le>s 1"
      "\<not> (8589934592 :: int64) \<le>s 3" "\<not> (3 :: int64) \<le>s 1"
      by (simp_all add: word_sle_eq)
    have a: "CalculateCollisionProbability math_Exp 8589934592 4294967296 = 0"
      unfolding CalculateCollisionProbability_def Let_def exponent_at_2_32
      using c ex by (simp add: f64_sub_def round_float64_sign(3))
    have "0 < round_float64 (1 - math_Exp (- (9 * 2 powi (- 34))))"
      by (rule round_float64_sign(1)) (use ex in simp)
    then have b: "0 < CalculateCollisionProbability math_Exp 8589934592 3"
      unfolding CalculateCollisionProbability_def Let_def exponent_at_3
      using c by (simp add: f64_sub_def)
    show ?thesis unfolding a by (rule b)
  qed
  have r: "(1 :: int64) <s 3037000500" "(3037000500 :: int64) <s 4611686018427387904"
    "(1 :: int64) <s 3" "(3 :: int64) <s 4294967296" "(4294967296 :: int64) <s 8589934592"
    by (simp_all add: word_sless_alt)
  show ?thesis
    using w neg mono r by blast
qed

theorem CalculateCollisionProbability_outside_unit_interval_witness:
  "CalculateCollisionProbability exp 4611686018427387904 3037000500 < 0 \<and>
   CalculateCollisionProbability exp 8589934592 4294967296 <
   CalculateCollisionProbability exp 8589934592 3"
proof -
  have "\<forall>x::real. 1 / 2 \<le> x \<and> x \<le> 1 \<longrightarrow> 1 < exp x" by simp
  moreover have "exp (0::real) = 1 \<and> exp (- (9 * 2 powi (- 34)) :: real) < 1" by simp
  ultimately show ?thesis
    using CalculateCollisionProbability_outside_unit_interval [of exp] by blast
qed

end
